theory Spec2Isabelle
  imports Main "HOL-Library.Sublist" "HOL-Library.AList"
begin

section \<open>Python values and strings\<close>

text \<open>
  The sync script \<^verbatim>\<open>sync_chase_to_pipefy_db.py\<close> works on values decoded from JSON
  (record attributes, GraphQL replies) and on Python strings. A Python string is modelled
  as a \<^typ>\<open>string\<close> whose characters are the code points 0..255; code points above 255
  are outside the model. JSON numbers are modelled as integers; floating point numbers are
  outside the model. A dictionary is an association list in insertion order.
\<close>

datatype pyval =
    PNone
  | PBool bool
  | PInt int
  | PStr string
  | PList "pyval list"
  | PDict "(string \<times> pyval) list"

type_synonym pydict = "(string \<times> pyval) list"

datatype py_error = KeyError string | TypeError | AttributeError

subsection \<open>Characters\<close>

definition backslash :: char where "backslash = CHR 0x5C"
definition dquote :: char where "dquote = CHR 0x22"
definition squote :: char where "squote = CHR 0x27"
definition newline :: char where "newline = CHR 0x0A"
definition carriage_return :: char where "carriage_return = CHR 0x0D"
definition tab :: char where "tab = CHR 0x09"

definition code_point :: "char \<Rightarrow> nat" where
  "code_point c = of_char c"

text \<open>\<^verbatim>\<open>str.isspace\<close> on the code points below 256: the characters \<^verbatim>\<open>str.split()\<close>
  and \<^verbatim>\<open>str.strip()\<close> treat as whitespace.\<close>

definition is_space :: "char \<Rightarrow> bool" where
  "is_space c = (code_point c \<in> {9, 10, 11, 12, 13, 28, 29, 30, 31, 32, 133, 160})"

subsection \<open>\<^verbatim>\<open>str.split()\<close>, \<^verbatim>\<open>str.join\<close>, \<^verbatim>\<open>str.replace\<close>\<close>

text \<open>\<^verbatim>\<open>s.split()\<close> with no argument: a scan that cuts the string at runs of whitespace
  and returns the non-empty words; \<open>cur\<close> is the word being read.\<close>

fun split_scan :: "string \<Rightarrow> string \<Rightarrow> string list" where
  "split_scan cur [] = (if cur = [] then [] else [cur])"
| "split_scan cur (c # cs) =
     (if is_space c
      then (if cur = [] then split_scan [] cs else cur # split_scan [] cs)
      else split_scan (cur @ [c]) cs)"

definition py_split :: "string \<Rightarrow> string list" where
  "py_split s = split_scan [] s"

fun py_join :: "string \<Rightarrow> string list \<Rightarrow> string" where
  "py_join sep [] = []"
| "py_join sep [w] = w"
| "py_join sep (w # v # ws) = w @ sep @ py_join sep (v # ws)"

text \<open>\<^verbatim>\<open>s.replace(c, rep)\<close> for a one-character pattern \<open>c\<close>.\<close>

definition replace_char :: "char \<Rightarrow> string \<Rightarrow> string \<Rightarrow> string" where
  "replace_char c rep s = concat (map (\<lambda>x. if x = c then rep else [x]) s)"

subsection \<open>\<^verbatim>\<open>str()\<close> and \<^verbatim>\<open>repr()\<close>\<close>

definition digit_char :: "nat \<Rightarrow> char" where
  "digit_char n = char_of (48 + n)"

fun nat_str :: "nat \<Rightarrow> string" where
  "nat_str n = (if n < 10 then [digit_char n] else nat_str (n div 10) @ [digit_char (n mod 10)])"

declare nat_str.simps [simp del]

definition int_str :: "int \<Rightarrow> string" where
  "int_str i = (if i < 0 then CHR ''-'' # nat_str (nat (- i)) else nat_str (nat i))"

definition hex_digit :: "nat \<Rightarrow> char" where
  "hex_digit n = (if n < 10 then char_of (48 + n) else char_of (87 + n))"

definition printable :: "char \<Rightarrow> bool" where
  "printable c = (let n = code_point c in (32 \<le> n \<and> n < 127) \<or> (161 \<le> n \<and> n \<noteq> 173))"

definition repr_char :: "char \<Rightarrow> char \<Rightarrow> string" where
  "repr_char q c =
     (if c = q \<or> c = backslash then [backslash, c]
      else if c = tab then [backslash, CHR ''t'']
      else if c = newline then [backslash, CHR ''n'']
      else if c = carriage_return then [backslash, CHR ''r'']
      else if printable c then [c]
      else [backslash, CHR ''x'', hex_digit (code_point c div 16), hex_digit (code_point c mod 16)])"

definition repr_str :: "string \<Rightarrow> string" where
  "repr_str s =
     (let q = (if squote \<in> set s \<and> dquote \<notin> set s then dquote else squote)
      in [q] @ concat (map (repr_char q) s) @ [q])"

fun py_repr :: "pyval \<Rightarrow> string" where
  "py_repr PNone = ''None''"
| "py_repr (PBool b) = (if b then ''True'' else ''False'')"
| "py_repr (PInt i) = int_str i"
| "py_repr (PStr s) = repr_str s"
| "py_repr (PList xs) = ''['' @ py_join '', '' (map py_repr xs) @ '']''"
| "py_repr (PDict kvs) =
     ''{'' @ py_join '', '' (map (\<lambda>kv. repr_str (fst kv) @ '': '' @ py_repr (snd kv)) kvs) @ ''}''"

definition py_str :: "pyval \<Rightarrow> string" where
  "py_str v = (case v of PStr s \<Rightarrow> s | _ \<Rightarrow> py_repr v)"

text \<open>Truth value of a Python object, as \<^verbatim>\<open>if x:\<close> and \<^verbatim>\<open>not x\<close> test it.\<close>

fun py_truthy :: "pyval \<Rightarrow> bool" where
  "py_truthy PNone = False"
| "py_truthy (PBool b) = b"
| "py_truthy (PInt i) = (i \<noteq> 0)"
| "py_truthy (PStr s) = (s \<noteq> [])"
| "py_truthy (PList xs) = (xs \<noteq> [])"
| "py_truthy (PDict kvs) = (kvs \<noteq> [])"

text \<open>\<^verbatim>\<open>d.get(k)\<close>, \<^verbatim>\<open>d.get(k, default)\<close> and \<^verbatim>\<open>k in d\<close> on a dictionary.\<close>

definition dict_get :: "pydict \<Rightarrow> string \<Rightarrow> pyval" where
  "dict_get d k = (case map_of d k of None \<Rightarrow> PNone | Some v \<Rightarrow> v)"

definition dict_get_or :: "pydict \<Rightarrow> string \<Rightarrow> pyval \<Rightarrow> pyval" where
  "dict_get_or d k dflt = (case map_of d k of None \<Rightarrow> dflt | Some v \<Rightarrow> v)"

definition dict_has :: "pydict \<Rightarrow> string \<Rightarrow> bool" where
  "dict_has d k = (map_of d k \<noteq> None)"

section \<open>Sanitization\<close>

text \<open>
  \<^verbatim>\<open>
  def sanitize_graphql_string(value):
      if value is None:
          return ""
      normalized = ' '.join(str(value).split())
      return normalized.replace('\\', '\\\\').replace('"', '\\"').replace('\n', '\\n')
                       .replace('\r', '\\r').replace('\t', '\\t')
  \<close>
\<close>

definition normalize_ws :: "string \<Rightarrow> string" where
  "normalize_ws s = py_join '' '' (py_split s)"

definition escape_graphql :: "string \<Rightarrow> string" where
  "escape_graphql s =
     replace_char tab [backslash, CHR ''t'']
       (replace_char carriage_return [backslash, CHR ''r'']
         (replace_char newline [backslash, CHR ''n'']
           (replace_char dquote [backslash, dquote]
             (replace_char backslash [backslash, backslash] s))))"

definition sanitize_graphql_string :: "pyval \<Rightarrow> string" where
  "sanitize_graphql_string v =
     (if v = PNone then [] else escape_graphql (normalize_ws (py_str v)))"

section \<open>The world outside the script\<close>

text \<open>
  The script talks to two HTTP services and prints a log. The model threads a \<open>world\<close>
  through every function that has one of these effects. An \<open>outcome\<close> says what the
  \<^verbatim>\<open>try\<close> block of one attempt does: it names the \<^verbatim>\<open>except\<close> clause that
  handles the attempt (\<^verbatim>\<open>requests.exceptions.Timeout\<close>, any other
  \<^verbatim>\<open>requests.exceptions.RequestException\<close> with the status code of
  \<^verbatim>\<open>e.response\<close> when there is one and the text of \<^verbatim>\<open>e\<close>), the
  exception that \<^verbatim>\<open>response.json()\<close> raises on a body that is not JSON, with its text,
  or carries what the request returned. The outcome of the \<open>n\<close>-th GET and of the \<open>n\<close>-th
  POST of a run are given by two functions, so every behaviour of the two services over a run
  is a world.

  The exception of \<^verbatim>\<open>response.json()\<close> is a
  \<^verbatim>\<open>requests.exceptions.JSONDecodeError\<close>: a \<^verbatim>\<open>RequestException\<close> built without a
  response, and a \<^verbatim>\<open>json.JSONDecodeError\<close> as well. Both functions list
  \<^verbatim>\<open>except requests.exceptions.RequestException\<close> before
  \<^verbatim>\<open>except json.JSONDecodeError\<close>, and Python runs the first clause that matches, so the
  former handles it, with \<^verbatim>\<open>e.response\<close> equal to \<^verbatim>\<open>None\<close>, and the latter
  is never reached.
  \<^verbatim>\<open>log(message)\<close> appends the message, kept as its f-string template and the values
  interpolated into it; \<^verbatim>\<open>time.sleep(d)\<close> appends \<open>d\<close> to \<open>sleeps\<close>.
\<close>

datatype 'a outcome =
    Timeout
  | RequestException "nat option" string
  | JSONDecodeError string
  | Returned 'a

datatype log_event = Log string "pyval list"

record world =
  get_outcomes :: "nat \<Rightarrow> pyval option outcome"
  post_outcomes :: "nat \<Rightarrow> pyval outcome"
  gets :: "(string \<times> (string \<times> string) list \<times> pyval) list"
  posts :: "pyval list"
  sleeps :: "nat list"
  logs :: "log_event list"
  DONE_PHASE_CACHE :: pydict

definition log :: "string \<Rightarrow> pyval list \<Rightarrow> world \<Rightarrow> world" where
  "log template args w = w\<lparr>logs := logs w @ [Log template args]\<rparr>"

definition sleep :: "nat \<Rightarrow> world \<Rightarrow> world" where
  "sleep d w = w\<lparr>sleeps := sleeps w @ [d]\<rparr>"

definition max_retries :: nat where
  "max_retries = 3"

text \<open>\<^verbatim>\<open>e.response.status_code if e.response else 'N/A'\<close>: a
  \<^verbatim>\<open>requests.Response\<close> is true when its status is not an error status
  (\<^verbatim>\<open>raise_for_status\<close> would not raise: the status is outside 400..599).\<close>

definition status_for_log :: "nat option \<Rightarrow> pyval" where
  "status_for_log st =
     (case st of
        None \<Rightarrow> PStr ''N/A''
      | Some c \<Rightarrow> if 400 \<le> c \<and> c < 600 then PStr ''N/A'' else PInt (int c))"

text \<open>\<^verbatim>\<open>e.response is not None and 400 <= e.response.status_code < 500 and
  e.response.status_code != 429\<close>\<close>

definition client_error :: "nat option \<Rightarrow> bool" where
  "client_error st = (case st of None \<Rightarrow> False | Some c \<Rightarrow> 400 \<le> c \<and> c < 500 \<and> c \<noteq> 429)"

section \<open>Transport: \<^verbatim>\<open>chase_api_get\<close> and \<^verbatim>\<open>pipefy_post\<close>\<close>

text \<open>
  One pass of the body of \<^verbatim>\<open>for attempt in range(max_retries)\<close> up to the end of the
  \<^verbatim>\<open>try\<close> statement. The result is \<open>Inl e\<close> for an exception no clause catches,
  \<open>Inr (Some r)\<close> for \<^verbatim>\<open>return r\<close>, and \<open>Inr None\<close> when control reaches the code
  after the \<^verbatim>\<open>try\<close> statement. \<open>request_exception\<close> is the clause
  \<^verbatim>\<open>except requests.exceptions.RequestException as e\<close>, as a function of the status
  code of \<^verbatim>\<open>e.response\<close> and of the text of \<^verbatim>\<open>e\<close>; it also handles the
  unparseable body.
\<close>

definition chase_attempt ::
  "string \<Rightarrow> pyval \<Rightarrow> pyval \<Rightarrow> nat \<Rightarrow> nat \<Rightarrow> world \<Rightarrow> (py_error + pyval option) \<times> world" where
  "chase_attempt endpoint config_id params attempt delay w =
     (let headers = (if py_truthy config_id then [(''ConfigID'', py_str config_id)] else []);
          w1 = w\<lparr>gets := gets w @ [(endpoint, headers, params)]\<rparr>;
          request_exception = (\<lambda>st e.
             (let w2 = log ''ERROR: Chase API call failed for {endpoint} (ConfigID: {config_id}, Attempt: {attempt+1}). Status: {e.response.status_code if e.response else 'N/A'}. Error: {e}''
                         [PStr endpoint, config_id, PInt (int attempt + 1), status_for_log st, PStr e] w1
              in if client_error st then (Inr (Some PNone), w2) else (Inr None, w2)))
      in case get_outcomes w (length (gets w)) of
           Returned (Some j) \<Rightarrow> (Inr (Some j), w1)
         | Returned None \<Rightarrow>
             (Inr (Some (PList [])),
              log ''Warning: Chase API returned empty response for {endpoint} (ConfigID: {config_id}, Attempt: {attempt+1})''
                [PStr endpoint, config_id, PInt (int attempt + 1)] w1)
         | Timeout \<Rightarrow>
             (Inr None,
              log ''Warning: Chase API call timed out for {endpoint} (ConfigID: {config_id}, Attempt: {attempt+1}). Retrying in {delay}s...''
                [PStr endpoint, config_id, PInt (int attempt + 1), PInt (int delay)] w1)
         | RequestException st e \<Rightarrow> request_exception st e
         | JSONDecodeError e \<Rightarrow> request_exception None e)"

function chase_api_get_from ::
  "nat \<Rightarrow> nat \<Rightarrow> string \<Rightarrow> pyval \<Rightarrow> pyval \<Rightarrow> world \<Rightarrow> (py_error + pyval) \<times> world" where
  "chase_api_get_from attempt delay endpoint config_id params w =
     (if attempt < max_retries then
        (case chase_attempt endpoint config_id params attempt delay w of
           (Inl e, w') \<Rightarrow> (Inl e, w')
         | (Inr (Some r), w') \<Rightarrow> (Inr r, w')
         | (Inr None, w') \<Rightarrow>
             if attempt < max_retries - 1
             then chase_api_get_from (attempt + 1) (delay * 2) endpoint config_id params (sleep delay w')
             else (Inr PNone,
                   log ''ERROR: Chase API call failed after {max_retries} attempts for {endpoint} (ConfigID: {config_id}).''
                     [PInt (int max_retries), PStr endpoint, config_id] w'))
      else (Inr PNone, w))"
  by pat_completeness auto
termination
  by (relation "measure (\<lambda>(attempt, delay, endpoint, config_id, params, w). max_retries - attempt)") auto

declare chase_api_get_from.simps [simp del]

definition chase_api_get :: "string \<Rightarrow> pyval \<Rightarrow> pyval \<Rightarrow> world \<Rightarrow> (py_error + pyval) \<times> world" where
  "chase_api_get endpoint config_id params w = chase_api_get_from 0 5 endpoint config_id params w"

text \<open>\<^verbatim>\<open>"errors" in x\<close>: key membership on a dictionary, element membership on a list,
  substring test on a string, \<^verbatim>\<open>TypeError\<close> on \<^verbatim>\<open>None\<close>, a boolean or a number.\<close>

definition has_errors :: "pyval \<Rightarrow> py_error + bool" where
  "has_errors x =
     (case x of
        PDict d \<Rightarrow> Inr (dict_has d ''errors'')
      | PList xs \<Rightarrow> Inr (PStr ''errors'' \<in> set xs)
      | PStr s \<Rightarrow> Inr (sublist ''errors'' s)
      | _ \<Rightarrow> Inl TypeError)"

definition error_result :: "string \<Rightarrow> pyval" where
  "error_result message = PDict [(''errors'', PList [PDict [(''message'', PStr message)]])]"

definition pipefy_attempt ::
  "pyval \<Rightarrow> nat \<Rightarrow> nat \<Rightarrow> world \<Rightarrow> (py_error + pyval option) \<times> world" where
  "pipefy_attempt payload attempt delay w =
     (let w1 = w\<lparr>posts := posts w @ [payload]\<rparr>;
          request_exception = (\<lambda>st e.
             (let w2 = log ''ERROR: Pipefy API request failed (Attempt {attempt+1}). Status: {e.response.status_code if e.response else 'N/A'}. Error: {e}''
                         [PInt (int attempt + 1), status_for_log st, PStr e] w1
              in if client_error st
                 then (Inr (Some (error_result (''Pipefy Client Error: '' @ e))), w2)
                 else (Inr None, w2)))
      in case post_outcomes w (length (posts w)) of
           Returned result \<Rightarrow>
             (case has_errors result of
                Inl e \<Rightarrow> (Inl e, w1)
              | Inr False \<Rightarrow> (Inr (Some result), w1)
              | Inr True \<Rightarrow>
                  (case result of
                     PDict d \<Rightarrow>
                       (let w2 = log ''ERROR: Pipefy GraphQL Error (Attempt {attempt+1}). Errors: {result['errors']}''
                                   [PInt (int attempt + 1), dict_get d ''errors''] w1
                        in if attempt = max_retries - 1 then (Inr (Some result), w2) else (Inr None, w2))
                   | _ \<Rightarrow> (Inl TypeError, w1)))
         | Timeout \<Rightarrow>
             (Inr None,
              log ''Warning: Pipefy API call timed out (Attempt {attempt+1}). Retrying in {delay}s...''
                [PInt (int attempt + 1), PInt (int delay)] w1)
         | RequestException st e \<Rightarrow> request_exception st e
         | JSONDecodeError e \<Rightarrow> request_exception None e)"

function pipefy_post_from :: "nat \<Rightarrow> nat \<Rightarrow> pyval \<Rightarrow> world \<Rightarrow> (py_error + pyval) \<times> world" where
  "pipefy_post_from attempt delay payload w =
     (if attempt < max_retries then
        (case pipefy_attempt payload attempt delay w of
           (Inl e, w') \<Rightarrow> (Inl e, w')
         | (Inr (Some r), w') \<Rightarrow> (Inr r, w')
         | (Inr None, w') \<Rightarrow>
             if attempt < max_retries - 1
             then pipefy_post_from (attempt + 1) (delay * 2) payload (sleep delay w')
             else (Inr (error_result ''Pipefy API call failed after multiple retries''),
                   log ''ERROR: Pipefy API call failed after {max_retries} attempts.''
                     [PInt (int max_retries)] w'))
      else (Inr PNone, w))"
  by pat_completeness auto
termination
  by (relation "measure (\<lambda>(attempt, delay, payload, w). max_retries - attempt)") auto

declare pipefy_post_from.simps [simp del]

definition pipefy_post :: "pyval \<Rightarrow> world \<Rightarrow> (py_error + pyval) \<times> world" where
  "pipefy_post payload w = pipefy_post_from 0 5 payload w"

text \<open>The world at the start of a run, for given behaviours of the two services.\<close>

definition initial_world :: "(nat \<Rightarrow> pyval option outcome) \<Rightarrow> (nat \<Rightarrow> pyval outcome) \<Rightarrow> world" where
  "initial_world g p =
     \<lparr>get_outcomes = g, post_outcomes = p, gets = [], posts = [], sleeps = [], logs = [],
      DONE_PHASE_CACHE = []\<rparr>"

section \<open>Executing mutations: \<^verbatim>\<open>execute_pipefy_mutations\<close>\<close>

definition batch_size :: nat where
  "batch_size = 50"

text \<open>The values \<^verbatim>\<open>batch = mutations[i:i+batch_size]\<close> takes while \<open>i\<close> runs through
  \<^verbatim>\<open>range(i, len(mutations), batch_size)\<close>.\<close>

function batches_from :: "nat \<Rightarrow> 'a list \<Rightarrow> 'a list list" where
  "batches_from i mutations =
     (if i < length mutations
      then take batch_size (drop i mutations) # batches_from (i + batch_size) mutations
      else [])"
  by pat_completeness auto
termination
  by (relation "measure (\<lambda>(i, mutations). length mutations - i)") (auto simp: batch_size_def)

declare batches_from.simps [simp del]

text \<open>\<^verbatim>\<open>for x in v\<close>: the elements of a list, the characters of a string, the keys of a
  dictionary; \<^verbatim>\<open>TypeError\<close> on a value that is not iterable.\<close>

definition py_iter :: "pyval \<Rightarrow> py_error + pyval list" where
  "py_iter v =
     (case v of
        PList xs \<Rightarrow> Inr xs
      | PStr s \<Rightarrow> Inr (map (\<lambda>c. PStr [c]) s)
      | PDict d \<Rightarrow> Inr (map (\<lambda>kv. PStr (fst kv)) d)
      | _ \<Rightarrow> Inl TypeError)"

text \<open>The loop over \<^verbatim>\<open>response["errors"]\<close>: \<^verbatim>\<open>error.get\<close> raises
  \<^verbatim>\<open>AttributeError\<close> on an element that is not a dictionary.\<close>

fun log_graphql_errors :: "pyval list \<Rightarrow> world \<Rightarrow> py_error option \<times> world" where
  "log_graphql_errors [] w = (None, w)"
| "log_graphql_errors (error # rest) w =
     (case error of
        PDict e \<Rightarrow>
          (let w1 = log ''  > GraphQL Error: {error.get('message')}'' [dict_get e ''message''] w;
               w2 = (if dict_has e ''path''
                     then log ''    Error path: {error.get('path')}'' [dict_get e ''path''] w1
                     else w1)
           in log_graphql_errors rest w2)
      | _ \<Rightarrow> (Some AttributeError, w))"

text \<open>The test of the \<^verbatim>\<open>elif\<close> that counts one alias as a success:
  \<^verbatim>\<open>isinstance(result, dict) and (result.get("table_record") or
  result.get("clientMutationId") is not None)\<close>; \<^verbatim>\<open>None\<close> and every other shape
  are failures.\<close>

definition mutation_succeeded :: "pyval \<Rightarrow> bool" where
  "mutation_succeeded result =
     (case result of
        PDict r \<Rightarrow> py_truthy (dict_get r ''table_record'') \<or> dict_get r ''clientMutationId'' \<noteq> PNone
      | _ \<Rightarrow> False)"

text \<open>The loop \<^verbatim>\<open>for alias, result in data.items()\<close> with its three counters
  \<^verbatim>\<open>success_count\<close>, \<^verbatim>\<open>null_count\<close> and \<^verbatim>\<open>fail_aliases\<close>.\<close>

fun classify_results :: "pydict \<Rightarrow> nat \<Rightarrow> nat \<Rightarrow> string list \<Rightarrow> nat \<times> nat \<times> string list" where
  "classify_results [] success_count null_count fail_aliases =
     (success_count, null_count, fail_aliases)"
| "classify_results ((alias, result) # rest) success_count null_count fail_aliases =
     (if result = PNone
      then classify_results rest success_count (null_count + 1) (fail_aliases @ [alias])
      else if mutation_succeeded result
      then classify_results rest (success_count + 1) null_count fail_aliases
      else classify_results rest success_count (null_count + 1) (fail_aliases @ [alias]))"

definition full_mutation_string :: "string list \<Rightarrow> string" where
  "full_mutation_string batch = ''mutation { '' @ py_join '' '' batch @ '' }''"

definition batch_payload :: "string list \<Rightarrow> pyval" where
  "batch_payload batch = PDict [(''query'', PStr (full_mutation_string batch))]"

text \<open>
  One pass of the body of \<^verbatim>\<open>for i in range(0, len(mutations), batch_size)\<close>, in two
  halves: \<open>submit_batch\<close> runs it up to \<^verbatim>\<open>response = pipefy_post(payload)\<close>, and
  \<open>settle_batch\<close> runs the rest on the response. The boolean of the result is \<open>False\<close>
  when the pass executes \<^verbatim>\<open>all_successful = False\<close>. The failure branch ends with
  \<^verbatim>\<open>continue\<close>, so it does not reach the pause between batches.
\<close>

definition submit_batch :: "nat \<Rightarrow> string list \<Rightarrow> world \<Rightarrow> (py_error + pyval) \<times> world" where
  "submit_batch i mutations w =
     (let batch = take batch_size (drop i mutations);
          w1 = log ''Executing batch {i//batch_size + 1}/{(len(mutations) + batch_size - 1)//batch_size} ({len(batch)} mutations)...''
                 [PInt (int (i div batch_size + 1)),
                  PInt (int ((length mutations + batch_size - 1) div batch_size)),
                  PInt (int (length batch))] w;
          w2 = (if length batch \<le> 3
                then log ''DEBUG: Mutation query: {full_mutation_string[:500]}...''
                       [PStr (take 500 (full_mutation_string batch))] w1
                else w1)
      in pipefy_post (batch_payload batch) w2)"

definition settle_batch :: "nat \<Rightarrow> string list \<Rightarrow> pyval \<Rightarrow> world \<Rightarrow> (py_error + bool) \<times> world" where
  "settle_batch i mutations response w3 =
     (let batch = take batch_size (drop i mutations)
      in case (if \<not> py_truthy response then Inr True else has_errors response) of
           Inl e \<Rightarrow> (Inl e, w3)
         | Inr True \<Rightarrow>
             (let w4 = log ''ERROR: Pipefy mutation batch {i//batch_size + 1} failed. Response: {response}''
                         [PInt (int (i div batch_size + 1)), response] w3
              in if py_truthy response
                 then (case response of
                         PDict d \<Rightarrow>
                           (case py_iter (dict_get d ''errors'') of
                              Inl e \<Rightarrow> (Inl e, w4)
                            | Inr errors \<Rightarrow>
                                (case log_graphql_errors errors w4 of
                                   (Some e, w5) \<Rightarrow> (Inl e, w5)
                                 | (None, w5) \<Rightarrow> (Inr False, w5)))
                       | _ \<Rightarrow> (Inl TypeError, w4))
                 else (Inr False, w4))
         | Inr False \<Rightarrow>
             (case response of
                PDict d \<Rightarrow>
                  (case dict_get_or d ''data'' (PDict []) of
                     PDict data \<Rightarrow>
                       (case classify_results data 0 0 [] of
                          (success_count, null_count, fail_aliases) \<Rightarrow>
                            (let ok = (success_count = length batch);
                                 w4 = (if ok
                                       then log ''Batch {i//batch_size + 1} completed successfully. All {success_count} mutations succeeded.''
                                              [PInt (int (i div batch_size + 1)), PInt (int success_count)] w3
                                       else (let w' = log ''Batch {i//batch_size + 1} finished with partial success. Success: {success_count}/{len(batch)}, Failed: {null_count}''
                                                       [PInt (int (i div batch_size + 1)), PInt (int success_count),
                                                        PInt (int (length batch)), PInt (int null_count)] w3
                                             in if fail_aliases \<noteq> []
                                                then log ''  Failed mutation aliases (first 10): {fail_aliases[:10]}''
                                                       [PList (map PStr (take 10 fail_aliases))] w'
                                                else w'));
                                 w5 = (if i + batch_size < length mutations then sleep 2 w4 else w4)
                             in (Inr ok, w5)))
                   | _ \<Rightarrow> (Inl AttributeError, w3))
              | _ \<Rightarrow> (Inl AttributeError, w3)))"

definition execute_batch :: "nat \<Rightarrow> string list \<Rightarrow> world \<Rightarrow> (py_error + bool) \<times> world" where
  "execute_batch i mutations w =
     (case submit_batch i mutations w of
        (Inl e, w3) \<Rightarrow> (Inl e, w3)
      | (Inr response, w3) \<Rightarrow> settle_batch i mutations response w3)"

function execute_from :: "nat \<Rightarrow> bool \<Rightarrow> string list \<Rightarrow> world \<Rightarrow> (py_error + bool) \<times> world" where
  "execute_from i all_successful mutations w =
     (if i < length mutations then
        (case execute_batch i mutations w of
           (Inl e, w') \<Rightarrow> (Inl e, w')
         | (Inr ok, w') \<Rightarrow> execute_from (i + batch_size) (all_successful \<and> ok) mutations w')
      else (Inr all_successful, w))"
  by pat_completeness auto
termination
  by (relation "measure (\<lambda>(i, all_successful, mutations, w). length mutations - i)")
     (auto simp: batch_size_def)

declare execute_from.simps [simp del]

definition execute_pipefy_mutations :: "string list \<Rightarrow> world \<Rightarrow> (py_error + bool) \<times> world" where
  "execute_pipefy_mutations mutations w =
     (if mutations = [] then (Inr True, log ''No mutations to execute.'' [] w)
      else (case execute_from 0 True mutations w of
              (Inl e, w') \<Rightarrow> (Inl e, w')
            | (Inr all_successful, w') \<Rightarrow>
                (Inr all_successful,
                 if all_successful
                 then log ''All Pipefy mutation batches executed successfully.'' [] w'
                 else log ''WARNING: One or more Pipefy mutation batches had failures.'' [] w')))"

section \<open>Field mappings and record keys\<close>

text \<open>
  \<^verbatim>\<open>field_mapping\<close> is a dictionary with the two entries \<^verbatim>\<open>"keys"\<close> (the key
  attributes, in order) and \<^verbatim>\<open>"fields"\<close> (attribute name to Pipefy field id, a
  dictionary, so its attribute names are distinct); they are the fields \<open>fm_keys\<close> and
  \<open>fm_fields\<close>. A record is a dictionary from attribute names to values.
\<close>

record field_mapping =
  fm_keys :: "string list"
  fm_fields :: "(string \<times> string) list"

definition DIVISIONS_TABLE_ID :: string where
  "DIVISIONS_TABLE_ID = ''306760306''"

definition BU_AGENCY_TABLE_ID :: string where
  "BU_AGENCY_TABLE_ID = ''306759746''"

text \<open>\<^verbatim>\<open>d[k] = v\<close>: the value is replaced in place when \<open>k\<close> is a key of \<open>d\<close>, and the
  entry is added at the end otherwise.\<close>

definition dict_set :: "('k \<times> 'v) list \<Rightarrow> 'k \<Rightarrow> 'v \<Rightarrow> ('k \<times> 'v) list" where
  "dict_set d k v = AList.update k v d"

text \<open>The three copies of the title derivation (in the create branch, the update branch and
  \<^verbatim>\<open>sync_table\<close>) are the same code.\<close>

definition derive_title :: "pydict \<Rightarrow> string" where
  "derive_title record =
     (if dict_has record ''product_name''
      then sanitize_graphql_string (dict_get record ''product_name'')
      else if dict_has record ''business_unit_name''
      then sanitize_graphql_string (dict_get record ''business_unit_name'')
      else if dict_has record ''division_name''
      then sanitize_graphql_string (dict_get record ''division_name'')
      else [])"

definition title_keys :: "string list" where
  "title_keys = [''product_name'', ''business_unit_name'', ''division_name'']"

section \<open>Building mutations: \<^verbatim>\<open>build_pipefy_mutations\<close>\<close>

subsection \<open>The alias\<close>

text \<open>\<^verbatim>\<open>\w\<close> and \<^verbatim>\<open>\d\<close> of \<^verbatim>\<open>re\<close> on the code points below 256: a word
  character is alphanumeric (\<^verbatim>\<open>str.isalnum\<close>) or the underscore.\<close>

definition is_word_char :: "char \<Rightarrow> bool" where
  "is_word_char c =
     (let n = code_point c
      in (48 \<le> n \<and> n \<le> 57) \<or> (65 \<le> n \<and> n \<le> 90) \<or> n = 95 \<or> (97 \<le> n \<and> n \<le> 122)
         \<or> n = 170 \<or> n = 178 \<or> n = 179 \<or> n = 181 \<or> n = 185 \<or> n = 186
         \<or> (188 \<le> n \<and> n \<le> 190) \<or> (192 \<le> n \<and> n \<le> 214) \<or> (216 \<le> n \<and> n \<le> 246)
         \<or> 248 \<le> n)"

definition is_decimal :: "char \<Rightarrow> bool" where
  "is_decimal c = (48 \<le> code_point c \<and> code_point c \<le> 57)"

text \<open>\<^verbatim>\<open>re.sub(r'\W|^(?=\d)', '_', s)\<close>: every character that is not a word character
  becomes an underscore, and an underscore is put in front when the string starts with a
  digit.\<close>

definition re_sub_identifier :: "string \<Rightarrow> string" where
  "re_sub_identifier s =
     (if s \<noteq> [] \<and> is_decimal (hd s) then ''_'' else [])
     @ map (\<lambda>c. if is_word_char c then c else CHR ''_'') s"

definition unique_suffix :: "string \<Rightarrow> string list \<Rightarrow> nat \<Rightarrow> pydict \<Rightarrow> string" where
  "unique_suffix action key_identifiers i record =
     (let alias_action = replace_char CHR ''-'' ''_'' action;
          key_values = map (\<lambda>k. py_str (dict_get_or record k (PStr []))) key_identifiers
      in re_sub_identifier (alias_action @ ''_'' @ nat_str i @ ''_'' @ py_join ''_'' key_values))"

subsection \<open>The create branch\<close>

text \<open>The dictionary comprehensions that build \<^verbatim>\<open>fields_to_set\<close>: one entry per
  attribute of \<^verbatim>\<open>field_mapping["fields"]\<close> that passes the filter \<open>keep\<close> and is in
  the record.\<close>

definition fields_to_set :: "(string \<times> string) list \<Rightarrow> (string \<Rightarrow> bool) \<Rightarrow> pydict \<Rightarrow> (string \<times> string) list" where
  "fields_to_set flds keep record =
     fold (\<lambda>(key, slug) acc.
             if keep key \<and> dict_has record key
             then dict_set acc slug (sanitize_graphql_string (dict_get record key))
             else acc) flds []"

text \<open>\<^verbatim>\<open>not all(str(record.get(k)) for k in key_identifiers if k in record)\<close>\<close>

definition missing_key_identifier :: "string list \<Rightarrow> pydict \<Rightarrow> bool" where
  "missing_key_identifier key_identifiers record =
     (\<not> list_all (\<lambda>k. py_str (dict_get record k) \<noteq> [])
          (filter (\<lambda>k. dict_has record k) key_identifiers))"

definition fields_attribute :: "string \<times> string \<Rightarrow> string" where
  \<open>fields_attribute sv = ''{field_id: "'' @ fst sv @ ''", field_value: "'' @ snd sv @ ''"}''\<close>

definition create_mutation :: "string \<Rightarrow> field_mapping \<Rightarrow> string \<Rightarrow> pydict \<Rightarrow> string" where
  \<open>create_mutation table_id fm alias_suffix record =
     (let fts = dict_set (fields_to_set (fm_fields fm) (\<lambda>key. True) record) ''status'' ''Active'';
          title_value = derive_title record;
          fields_attributes_string = ''['' @ py_join '', '' (map fields_attribute fts) @ '']'';
          mutation_body = ''createTableRecord(input: {table_id: "'' @ table_id @ ''", title: "''
            @ title_value @ ''", fields_attributes: '' @ fields_attributes_string
            @ '' }) { table_record { id } }''
      in ''mut_'' @ alias_suffix @ '': '' @ mutation_body)\<close>

subsection \<open>The update branch\<close>

definition field_value :: "string \<times> string \<Rightarrow> string" where
  \<open>field_value sv = ''{fieldId: "'' @ fst sv @ ''", value: "'' @ snd sv @ ''"}''\<close>

definition update_fields_mutation :: "string \<Rightarrow> pyval \<Rightarrow> string list \<Rightarrow> string" where
  \<open>update_fields_mutation alias_suffix pipefy_record_id field_values =
     ''mut_'' @ alias_suffix @ '': '' @ ''updateFieldsValues(input: {nodeId: "'' @ py_str pipefy_record_id
       @ ''", values: '' @ (''['' @ py_join '', '' field_values @ '']'') @ '' }) { clientMutationId }''\<close>

definition update_title_mutation :: "string \<Rightarrow> pyval \<Rightarrow> string \<Rightarrow> string" where
  \<open>update_title_mutation alias_suffix pipefy_record_id new_title =
     ''mut_'' @ alias_suffix @ ''_ttl: '' @ ''updateTableRecord(input: {id: "'' @ py_str pipefy_record_id
       @ ''", title: "'' @ new_title @ ''"}) { table_record { id } }''\<close>

text \<open>
  The update branch for a record whose \<^verbatim>\<open>pipefy_record_id\<close> is true. Every value of
  \<^verbatim>\<open>fields_to_set\<close> is a string, so the test \<^verbatim>\<open>val is not None\<close> keeps every entry.
  The result is the list of fragments appended and whether the branch logged
  "Skipping update ... no changes detected".
\<close>

definition update_fragments :: "field_mapping \<Rightarrow> string \<Rightarrow> pyval \<Rightarrow> pydict \<Rightarrow> string list \<times> bool" where
  "update_fragments fm alias_suffix pipefy_record_id record =
     (let fts = dict_set
                  (fields_to_set (fm_fields fm)
                     (\<lambda>key. key \<notin> set (fm_keys fm) \<and> key \<notin> set title_keys) record)
                  ''status'' (sanitize_graphql_string (dict_get_or record ''status'' (PStr ''Active'')));
          current_title = dict_get_or record ''current_title'' (PStr []);
          new_title = derive_title record;
          title_needs_update = (new_title \<noteq> [] \<and> current_title \<noteq> PStr new_title);
          field_values = map field_value fts
      in if field_values \<noteq> [] \<or> title_needs_update
         then ((if field_values \<noteq> []
                then [update_fields_mutation alias_suffix pipefy_record_id field_values] else [])
               @ (if title_needs_update
                  then [update_title_mutation alias_suffix pipefy_record_id new_title] else []),
               False)
         else ([], True))"

subsection \<open>The archive branch and \<^verbatim>\<open>get_done_phase_id\<close>\<close>

definition py_strip :: "string \<Rightarrow> string" where
  "py_strip s = rev (dropWhile is_space (rev (dropWhile is_space s)))"

definition lower_char :: "char \<Rightarrow> char" where
  "lower_char c =
     (let n = code_point c
      in if (65 \<le> n \<and> n \<le> 90) \<or> (192 \<le> n \<and> n \<le> 222 \<and> n \<noteq> 215) then char_of (n + 32) else c)"

definition py_lower :: "string \<Rightarrow> string" where
  "py_lower s = map lower_char s"

text \<open>\<^verbatim>\<open>v.get(k, default)\<close> on any value: \<^verbatim>\<open>AttributeError\<close> unless \<open>v\<close> is a
  dictionary.\<close>

definition py_get :: "pyval \<Rightarrow> string \<Rightarrow> pyval \<Rightarrow> py_error + pyval" where
  "py_get v k dflt = (case v of PDict d \<Rightarrow> Inr (dict_get_or d k dflt) | _ \<Rightarrow> Inl AttributeError)"

definition done_phase_query :: string where
  "done_phase_query =
     [newline] @ ''    query ($table_id: ID!) {''
     @ [newline] @ ''      table(id: $table_id) {''
     @ [newline] @ ''        phases {''
     @ [newline] @ ''          id''
     @ [newline] @ ''          name''
     @ [newline] @ ''        }''
     @ [newline] @ ''      }''
     @ [newline] @ ''    }''
     @ [newline] @ ''    ''"

text \<open>\<^verbatim>\<open>response.get("data", {}).get("table", {}).get("phases", [])\<close>\<close>

definition response_phases :: "pyval \<Rightarrow> py_error + pyval" where
  "response_phases response =
     (case py_get response ''data'' (PDict []) of
        Inl e \<Rightarrow> Inl e
      | Inr data \<Rightarrow>
          (case py_get data ''table'' (PDict []) of
             Inl e \<Rightarrow> Inl e
           | Inr table \<Rightarrow> py_get table ''phases'' (PList [])))"

text \<open>The loop that looks for the phase named "Done"; the result is \<^verbatim>\<open>done_phase\<close>.\<close>

fun find_done_phase :: "pyval list \<Rightarrow> py_error + pyval" where
  "find_done_phase [] = Inr PNone"
| "find_done_phase (phase # rest) =
     (case py_get phase ''name'' (PStr []) of
        Inl e \<Rightarrow> Inl e
      | Inr (PStr name) \<Rightarrow>
          if py_lower (py_strip name) = ''done''
          then py_get phase ''id'' PNone
          else find_done_phase rest
      | Inr _ \<Rightarrow> Inl AttributeError)"

text \<open>\<^verbatim>\<open>[p.get('name') for p in phases]\<close>\<close>

fun phase_names :: "pyval list \<Rightarrow> py_error + pyval list" where
  "phase_names [] = Inr []"
| "phase_names (p # rest) =
     (case py_get p ''name'' PNone of
        Inl e \<Rightarrow> Inl e
      | Inr n \<Rightarrow> (case phase_names rest of Inl e \<Rightarrow> Inl e | Inr ns \<Rightarrow> Inr (n # ns)))"

definition get_done_phase_id :: "string \<Rightarrow> world \<Rightarrow> (py_error + pyval) \<times> world" where
  "get_done_phase_id table_id w =
     (if dict_has (DONE_PHASE_CACHE w) table_id
      then (Inr (dict_get (DONE_PHASE_CACHE w) table_id), w)
      else
        (let w1 = log ''Fetching 'Done' phase ID for table {table_id}...'' [PStr table_id] w;
             payload = PDict [(''query'', PStr done_phase_query),
                              (''variables'', PDict [(''table_id'', PStr table_id)])]
         in case pipefy_post payload w1 of
              (Inl e, w2) \<Rightarrow> (Inl e, w2)
            | (Inr response, w2) \<Rightarrow>
                (case (if \<not> py_truthy response then Inr True else has_errors response) of
                   Inl e \<Rightarrow> (Inl e, w2)
                 | Inr True \<Rightarrow>
                     (Inr PNone,
                      log ''ERROR: Failed to fetch phases for table {table_id}. Response: {response}''
                        [PStr table_id, response] w2)
                 | Inr False \<Rightarrow>
                     (case response_phases response of
                        Inl e \<Rightarrow> (Inl e, w2)
                      | Inr phases \<Rightarrow>
                          (case py_iter phases of
                             Inl e \<Rightarrow> (Inl e, w2)
                           | Inr ps \<Rightarrow>
                               (case find_done_phase ps of
                                  Inl e \<Rightarrow> (Inl e, w2)
                                | Inr done_phase \<Rightarrow>
                                    if py_truthy done_phase
                                    then (Inr done_phase,
                                          (log ''Found 'Done' phase ID for table {table_id}: {done_phase}''
                                             [PStr table_id, done_phase] w2)
                                          \<lparr>DONE_PHASE_CACHE := dict_set (DONE_PHASE_CACHE w2) table_id done_phase\<rparr>)
                                    else (case phase_names ps of
                                            Inl e \<Rightarrow> (Inl e, w2)
                                          | Inr names \<Rightarrow>
                                              (Inr done_phase,
                                               (log ''WARNING: No 'Done' phase found for table {table_id}. Available phases: {[p.get('name') for p in phases]}''
                                                  [PStr table_id, PList names] w2)
                                               \<lparr>DONE_PHASE_CACHE := dict_set (DONE_PHASE_CACHE w2) table_id PNone\<rparr>))))))))"

definition archive_phase_mutation :: "string \<Rightarrow> pyval \<Rightarrow> pyval \<Rightarrow> string" where
  \<open>archive_phase_mutation alias_suffix pipefy_record_id done_phase_id =
     ''mut_'' @ alias_suffix @ '': '' @ ''updateTableRecordField(input: {table_record_id: "''
       @ py_str pipefy_record_id @ ''", field_id: "current_phase", new_value: "''
       @ py_str done_phase_id @ ''"}) { table_record { id } }''\<close>

definition archive_status_mutation :: "string \<Rightarrow> pyval \<Rightarrow> string" where
  \<open>archive_status_mutation alias_suffix pipefy_record_id =
     ''mut_'' @ alias_suffix @ '': '' @ ''updateFieldsValues(input: {nodeId: "''
       @ py_str pipefy_record_id
       @ ''", values: [{fieldId: "status", value: "Archived"}] }) { clientMutationId }''\<close>

subsection \<open>The loop over the records\<close>

text \<open>
  One pass of the body of \<^verbatim>\<open>for i, record in enumerate(records)\<close>: the result is the
  list of fragments the pass appends to \<^verbatim>\<open>mutations\<close>. An action other than
  \<^verbatim>\<open>"create"\<close>, \<^verbatim>\<open>"update"\<close> and \<^verbatim>\<open>"archive"\<close> matches no branch.
\<close>

definition build_record ::
  "string \<Rightarrow> string \<Rightarrow> field_mapping \<Rightarrow> nat \<Rightarrow> pydict \<Rightarrow> world \<Rightarrow> (py_error + string list) \<times> world" where
  "build_record table_id action fm i record w =
     (let alias_suffix = unique_suffix action (fm_keys fm) i record;
          pipefy_record_id = dict_get record ''pipefy_record_id''
      in if action = ''create'' then
           (if missing_key_identifier (fm_keys fm) record
            then (Inr [],
                  log ''Skipping record creation for table {table_id}: Missing key identifier(s) in {record}''
                    [PStr table_id, PDict record] w)
            else (Inr [create_mutation table_id fm alias_suffix record], w))
         else if action = ''update'' then
           (if \<not> py_truthy pipefy_record_id
            then (Inr [], log (''Skipping record update: Missing 'pipefy_record_id'' @ [squote]) [] w)
            else (case update_fragments fm alias_suffix pipefy_record_id record of
                    (ms, skipped) \<Rightarrow>
                      (Inr ms,
                       if skipped
                       then log ''Skipping update for record {pipefy_record_id}, no changes detected.''
                              [pipefy_record_id] w
                       else w)))
         else if action = ''archive'' then
           (if \<not> py_truthy pipefy_record_id
            then (Inr [], log (''Skipping record archive: Missing 'pipefy_record_id'' @ [squote]) [] w)
            else (case get_done_phase_id table_id w of
                    (Inl e, w1) \<Rightarrow> (Inl e, w1)
                  | (Inr done_phase_id, w1) \<Rightarrow>
                      if py_truthy done_phase_id
                      then (Inr [archive_phase_mutation alias_suffix pipefy_record_id done_phase_id], w1)
                      else (Inr [archive_status_mutation alias_suffix pipefy_record_id],
                            log ''WARNING: No Done phase found for table {table_id}. Using status field fallback for record {pipefy_record_id}''
                              [PStr table_id, pipefy_record_id] w1)))
         else (Inr [], w))"

fun build_from ::
  "string \<Rightarrow> string \<Rightarrow> field_mapping \<Rightarrow> nat \<Rightarrow> pydict list \<Rightarrow> string list \<Rightarrow> world
   \<Rightarrow> (py_error + string list) \<times> world" where
  "build_from table_id action fm i [] mutations w = (Inr mutations, w)"
| "build_from table_id action fm i (record # rest) mutations w =
     (case build_record table_id action fm i record w of
        (Inl e, w') \<Rightarrow> (Inl e, w')
      | (Inr ms, w') \<Rightarrow> build_from table_id action fm (i + 1) rest (mutations @ ms) w')"

definition build_pipefy_mutations ::
  "pydict list \<Rightarrow> string \<Rightarrow> string \<Rightarrow> field_mapping \<Rightarrow> world \<Rightarrow> (py_error + string list) \<times> world" where
  "build_pipefy_mutations records table_id action fm w = build_from table_id action fm 0 records [] w"

section \<open>Reconciliation: the diff of \<^verbatim>\<open>sync_table\<close>\<close>

text \<open>
  \<^verbatim>\<open>get_key(record, is_pipefy)\<close>, the inner function of \<^verbatim>\<open>sync_table\<close>. A key
  attribute without an entry in \<^verbatim>\<open>field_mapping["fields"]\<close> has the slug \<^verbatim>\<open>None\<close>,
  which is the name of no attribute, so \<^verbatim>\<open>record.get(None, '')\<close> is the empty string.
  For the divisions table \<^verbatim>\<open>field_mapping['fields']['division_id']\<close> and
  \<^verbatim>\<open>field_mapping['fields']['customer_id']\<close> are evaluated on the Pipefy side only,
  and raise \<^verbatim>\<open>KeyError\<close> when the mapping lacks them.
\<close>

definition get_key :: "string \<Rightarrow> field_mapping \<Rightarrow> bool \<Rightarrow> pydict \<Rightarrow> py_error + string" where
  "get_key pipefy_table_id fm is_pipefy record =
     (let key_parts =
            map (\<lambda>k. py_str (if is_pipefy
                              then (case map_of (fm_fields fm) k of
                                      None \<Rightarrow> PStr []
                                    | Some pipefy_slug \<Rightarrow> dict_get_or record pipefy_slug (PStr []))
                              else dict_get_or record k (PStr [])))
              (fm_keys fm)
      in if pipefy_table_id = DIVISIONS_TABLE_ID then
           (if is_pipefy then
              (case map_of (fm_fields fm) ''division_id'' of
                 None \<Rightarrow> Inl (KeyError ''division_id'')
               | Some division_slug \<Rightarrow>
                   (case map_of (fm_fields fm) ''customer_id'' of
                      None \<Rightarrow> Inl (KeyError ''customer_id'')
                    | Some customer_slug \<Rightarrow>
                        Inr (py_join ''-''
                               [py_str (dict_get_or record division_slug (PStr [])),
                                py_str (dict_get_or record customer_slug (PStr []))])))
            else Inr (py_join ''-''
                        [py_str (dict_get_or record ''division_id'' (PStr [])),
                         py_str (dict_get_or record ''customer_id'' (PStr []))]))
         else Inr (py_join ''-'' key_parts))"

text \<open>The dictionary comprehensions \<^verbatim>\<open>{get_key(r): r for r in ...}\<close>: a later record with
  the same key replaces the earlier one.\<close>

fun key_map :: "(pydict \<Rightarrow> py_error + string) \<Rightarrow> pydict list \<Rightarrow> (string \<times> pydict) list
    \<Rightarrow> py_error + (string \<times> pydict) list" where
  "key_map key_of [] m = Inr m"
| "key_map key_of (r # rs) m =
     (case key_of r of Inl e \<Rightarrow> Inl e | Inr k \<Rightarrow> key_map key_of rs (dict_set m k r))"

text \<open>The loop over \<^verbatim>\<open>field_mapping["fields"].items()\<close> that compares the attributes
  which are not key attributes, with its \<^verbatim>\<open>break\<close> at the first difference.\<close>

fun fields_differ :: "string list \<Rightarrow> (string \<times> string) list \<Rightarrow> pydict \<Rightarrow> pydict \<Rightarrow> bool" where
  "fields_differ key_fields [] chase_record pipefy_record = False"
| "fields_differ key_fields ((record_key, pipefy_slug) # rest) chase_record pipefy_record =
     (if record_key \<notin> set key_fields then
        (let chase_val = sanitize_graphql_string (dict_get chase_record record_key);
             pipefy_val = (if dict_get pipefy_record pipefy_slug = PNone then []
                           else normalize_ws (py_str (dict_get pipefy_record pipefy_slug)))
         in if chase_val \<noteq> pipefy_val then True
            else fields_differ key_fields rest chase_record pipefy_record)
      else fields_differ key_fields rest chase_record pipefy_record)"

definition needs_update :: "field_mapping \<Rightarrow> pydict \<Rightarrow> pydict \<Rightarrow> bool" where
  "needs_update fm chase_record pipefy_record =
     (let current_title = dict_get_or pipefy_record ''title'' (PStr []);
          new_title = derive_title chase_record
      in fields_differ (fm_keys fm) (fm_fields fm) chase_record pipefy_record
         \<or> (new_title \<noteq> [] \<and> current_title \<noteq> PStr new_title)
         \<or> dict_get pipefy_record ''status'' \<noteq> PStr ''Active'')"

text \<open>One pass of the body of \<^verbatim>\<open>for chase_key, chase_record in chase_map.items()\<close>, on
  the lists \<^verbatim>\<open>to_create\<close> and \<^verbatim>\<open>to_update\<close>.
  \<^verbatim>\<open>pipefy_record['pipefy_record_id']\<close> raises \<^verbatim>\<open>KeyError\<close> on a record without
  that entry.\<close>

fun reconcile_source ::
  "field_mapping \<Rightarrow> (string \<times> pydict) list \<Rightarrow> string \<times> pydict \<Rightarrow> pydict list \<times> pydict list
   \<Rightarrow> py_error + pydict list \<times> pydict list" where
  "reconcile_source fm pipefy_map (chase_key, chase_record) (to_create, to_update) =
          (case map_of pipefy_map chase_key of
             None \<Rightarrow> Inr (to_create @ [chase_record], to_update)
           | Some pipefy_record \<Rightarrow>
               if needs_update fm chase_record pipefy_record
               then (case map_of pipefy_record ''pipefy_record_id'' of
                       None \<Rightarrow> Inl (KeyError ''pipefy_record_id'')
                     | Some record_id \<Rightarrow>
                         (let update_data =
                                dict_set
                                  (dict_set (dict_set chase_record ''pipefy_record_id'' record_id)
                                     ''current_title'' (dict_get_or pipefy_record ''title'' (PStr [])))
                                  ''status'' (PStr ''Active'')
                          in Inr (to_create, to_update @ [update_data])))
               else Inr (to_create, to_update))"

fun reconcile_sources ::
  "field_mapping \<Rightarrow> (string \<times> pydict) list \<Rightarrow> (string \<times> pydict) list \<Rightarrow> pydict list \<times> pydict list
   \<Rightarrow> py_error + pydict list \<times> pydict list" where
  "reconcile_sources fm pipefy_map [] acc = Inr acc"
| "reconcile_sources fm pipefy_map (item # items) acc =
     (case reconcile_source fm pipefy_map item acc of
        Inl e \<Rightarrow> Inl e
      | Inr acc' \<Rightarrow> reconcile_sources fm pipefy_map items acc')"

text \<open>One pass of the body of \<^verbatim>\<open>for pipefy_key, pipefy_record in pipefy_map.items()\<close>.\<close>

fun reconcile_destination ::
  "(string \<times> pydict) list \<Rightarrow> string \<times> pydict \<Rightarrow> pydict list \<Rightarrow> pydict list" where
  "reconcile_destination chase_map (pipefy_key, pipefy_record) to_archive =
     (if map_of chase_map pipefy_key = None \<and> dict_get pipefy_record ''status'' \<noteq> PStr ''Archived''
      then to_archive @ [pipefy_record]
      else to_archive)"

definition chase_map_of :: "string \<Rightarrow> field_mapping \<Rightarrow> pydict list \<Rightarrow> py_error + (string \<times> pydict) list" where
  "chase_map_of pipefy_table_id fm chase_data_list =
     key_map (get_key pipefy_table_id fm False) chase_data_list []"

definition pipefy_map_of :: "string \<Rightarrow> field_mapping \<Rightarrow> pydict list \<Rightarrow> py_error + (string \<times> pydict) list" where
  "pipefy_map_of pipefy_table_id fm pipefy_data =
     key_map (get_key pipefy_table_id fm True) pipefy_data []"

text \<open>
  The part of \<^verbatim>\<open>sync_table\<close> from \<^verbatim>\<open>key_fields = field_mapping["keys"]\<close> to the end
  of the second loop: from the Chase records and the fetched Pipefy records to the lists
  \<^verbatim>\<open>to_create\<close>, \<^verbatim>\<open>to_update\<close> and \<^verbatim>\<open>to_archive\<close>.
\<close>

definition reconcile ::
  "string \<Rightarrow> field_mapping \<Rightarrow> pydict list \<Rightarrow> pydict list
   \<Rightarrow> py_error + pydict list \<times> pydict list \<times> pydict list" where
  "reconcile pipefy_table_id fm chase_data_list pipefy_data =
     (case chase_map_of pipefy_table_id fm chase_data_list of
        Inl e \<Rightarrow> Inl e
      | Inr chase_map \<Rightarrow>
          (case pipefy_map_of pipefy_table_id fm pipefy_data of
             Inl e \<Rightarrow> Inl e
           | Inr pipefy_map \<Rightarrow>
               (case reconcile_sources fm pipefy_map chase_map ([], []) of
                  Inl e \<Rightarrow> Inl e
                | Inr (to_create, to_update) \<Rightarrow>
                    Inr (to_create, to_update,
                         fold (reconcile_destination chase_map) pipefy_map []))))"

text \<open>
  \<^verbatim>\<open>sync_table\<close> after a successful fetch: \<open>pipefy_data\<close> is the list that
  \<^verbatim>\<open>get_pipefy_table_records\<close> returned. The three lists of mutations are built first
  and executed afterwards, in the order create, update, archive.
\<close>

definition sync_table_fetched ::
  "pydict list \<Rightarrow> pydict list \<Rightarrow> string \<Rightarrow> field_mapping \<Rightarrow> world \<Rightarrow> (py_error + bool) \<times> world" where
  "sync_table_fetched pipefy_data chase_data_list pipefy_table_id fm w =
     (case reconcile pipefy_table_id fm chase_data_list pipefy_data of
        Inl e \<Rightarrow> (Inl e, w)
      | Inr (to_create, to_update, to_archive) \<Rightarrow>
          (let w0 = log ''Sync Results for {pipefy_table_id}: Create: {len(to_create)}, Update: {len(to_update)}, Archive: {len(to_archive)}''
                      [PStr pipefy_table_id, PInt (int (length to_create)),
                       PInt (int (length to_update)), PInt (int (length to_archive))] w
           in case build_pipefy_mutations to_create pipefy_table_id ''create'' fm w0 of
                (Inl e, w1) \<Rightarrow> (Inl e, w1)
              | (Inr create_mutations, w1) \<Rightarrow>
           (case build_pipefy_mutations to_update pipefy_table_id ''update'' fm w1 of
                (Inl e, w2) \<Rightarrow> (Inl e, w2)
              | (Inr update_mutations, w2) \<Rightarrow>
           (case build_pipefy_mutations to_archive pipefy_table_id ''archive'' fm w2 of
                (Inl e, w3) \<Rightarrow> (Inl e, w3)
              | (Inr archive_mutations, w3) \<Rightarrow>
           (case execute_pipefy_mutations create_mutations w3 of
                (Inl e, w4) \<Rightarrow> (Inl e, w4)
              | (Inr success_c, w4) \<Rightarrow>
           (case execute_pipefy_mutations update_mutations w4 of
                (Inl e, w5) \<Rightarrow> (Inl e, w5)
              | (Inr success_u, w5) \<Rightarrow>
           (case execute_pipefy_mutations archive_mutations w5 of
                (Inl e, w6) \<Rightarrow> (Inl e, w6)
              | (Inr success_a, w6) \<Rightarrow>
                  (Inr (success_c \<and> success_u \<and> success_a),
                   log ''--- Finished sync for Table ID: {pipefy_table_id} ---''
                     [PStr pipefy_table_id] w6))))))))"

section \<open>The field mappings of \<^verbatim>\<open>main\<close>\<close>

definition bu_agency_field_map :: field_mapping where
  "bu_agency_field_map =
     \<lparr>fm_keys = [''config_id'', ''business_unit_id''],
      fm_fields = [(''config_id'', ''config_id''),
                   (''business_unit_id'', ''business_unit_id''),
                   (''business_unit_name'', ''business_unit_name'')]\<rparr>"

definition product_client_field_map :: field_mapping where
  "product_client_field_map =
     \<lparr>fm_keys = [''config_id'', ''client_id'', ''product_id''],
      fm_fields = [(''config_id'', ''config_id''),
                   (''client_id'', ''customer_id''),
                   (''client_name'', ''customer_name''),
                   (''product_id'', ''product_id''),
                   (''product_name'', ''product''),
                   (''contact_name'', ''client_contact_name'')]\<rparr>"

definition divisions_field_map :: field_mapping where
  "divisions_field_map =
     \<lparr>fm_keys = [''division_id'', ''customer_id''],
      fm_fields = [(''division_id'', ''division_id''),
                   (''division_name'', ''division_name''),
                   (''customer_id'', ''customer_id''),
                   (''customer_name'', ''customer_name'')]\<rparr>"

section \<open>Notions used in the statements\<close>

text \<open>The definitions of this section are not code of the script: they name what the
  properties below talk about.\<close>

text \<open>A word as \<^verbatim>\<open>str.split()\<close> returns it: not empty and free of whitespace.\<close>

definition word_ok :: "string \<Rightarrow> bool" where
  "word_ok w = (w \<noteq> [] \<and> (\<forall>c\<in>set w. \<not> is_space c))"

text \<open>The characters that the sanitization escapes.\<close>

definition special :: "char \<Rightarrow> bool" where
  "special c = (c = backslash \<or> c = dquote \<or> c = newline \<or> c = carriage_return \<or> c = tab)"

text \<open>An attempt of \<^verbatim>\<open>pipefy_post\<close> is transient when it ends in a timeout or in a request
  error that is not a non-429 4xx (the unparseable body, an outcome of its own, is not counted
  here); it is retried when it is transient or when the reply is a dictionary with
  \<^verbatim>\<open>"errors"\<close>.\<close>

definition transient :: "pyval outcome \<Rightarrow> bool" where
  "transient out = (case out of Timeout \<Rightarrow> True | RequestException st e \<Rightarrow> \<not> client_error st | _ \<Rightarrow> False)"

definition retried :: "pyval outcome \<Rightarrow> bool" where
  "retried out =
     (transient out \<or> (case out of Returned (PDict d) \<Rightarrow> dict_has d ''errors'' | _ \<Rightarrow> False))"

text \<open>A fragment is the text \<^verbatim>\<open>alias: name(arguments) { selection }\<close>: its alias is the
  text before the colon, and the name of its mutation the text between the colon and the
  parenthesis.\<close>

definition alias_of :: "string \<Rightarrow> string" where
  "alias_of fragment = takeWhile (\<lambda>c. c \<noteq> CHR '':'') fragment"


text \<open>The alias of a fragment built for the record at position \<open>i\<close>.\<close>

definition alias_at :: "string \<Rightarrow> nat \<Rightarrow> string \<Rightarrow> bool" where
  "alias_at action i a = (\<exists>X. a = ''mut_'' @ action @ ''_'' @ nat_str i @ ''_'' @ X)"

text \<open>The list \<^verbatim>\<open>field_values\<close> of the update branch.\<close>

definition update_field_values :: "field_mapping \<Rightarrow> pydict \<Rightarrow> string list" where
  "update_field_values fm r =
     map field_value
       (dict_set
          (fields_to_set (fm_fields fm)
             (\<lambda>key. key \<notin> set (fm_keys fm) \<and> key \<notin> set title_keys) r)
          ''status'' (sanitize_graphql_string (dict_get_or r ''status'' (PStr ''Active''))))"

text \<open>
  What one call of \<^verbatim>\<open>execute_pipefy_mutations\<close> exchanges with Pipefy: each batch it
  submits, with the value \<^verbatim>\<open>pipefy_post\<close> returned for it, in order. The list ends
  with the batch at which an exception escapes, if one does.
\<close>

function exchanges_from :: "nat \<Rightarrow> string list \<Rightarrow> world \<Rightarrow> (string list \<times> (py_error + pyval)) list" where
  "exchanges_from i mutations w =
     (if i < length mutations then
        (take batch_size (drop i mutations), fst (submit_batch i mutations w))
        # (case execute_batch i mutations w of
             (Inl e, w') \<Rightarrow> []
           | (Inr ok, w') \<Rightarrow> exchanges_from (i + batch_size) mutations w')
      else [])"
  by pat_completeness auto
termination
  by (relation "measure (\<lambda>(i, mutations, w). length mutations - i)") (auto simp: batch_size_def)

declare exchanges_from.simps [simp del]

definition is_dict :: "pyval \<Rightarrow> bool" where
  "is_dict v = (case v of PDict d \<Rightarrow> True | _ \<Rightarrow> False)"

text \<open>
  A reply in the shape of a GraphQL response to the batch: a dictionary whose
  \<^verbatim>\<open>"errors"\<close>, when present, is a list of dictionaries, and whose \<^verbatim>\<open>"data"\<close>
  otherwise has one entry for each fragment of the batch, under the fragment's alias and in
  the order of the request.
\<close>

definition graphql_reply :: "string list \<Rightarrow> py_error + pyval \<Rightarrow> bool" where
  "graphql_reply batch reply =
     (case reply of
        Inr (PDict d) \<Rightarrow>
          if dict_has d ''errors''
          then (case dict_get d ''errors'' of PList es \<Rightarrow> list_all is_dict es | _ \<Rightarrow> False)
          else (case dict_get_or d ''data'' (PDict []) of
                  PDict data \<Rightarrow> map fst data = map alias_of batch \<and> distinct (map fst data)
                | _ \<Rightarrow> False)
      | _ \<Rightarrow> False)"

text \<open>Every alias of the batch was classified as a success: the reply has no
  \<^verbatim>\<open>"errors"\<close> and its \<^verbatim>\<open>"data"\<close> holds, for every fragment of the batch, a result
  that the classification counts as a success.\<close>

definition all_aliases_succeeded :: "string list \<Rightarrow> py_error + pyval \<Rightarrow> bool" where
  "all_aliases_succeeded batch reply =
     (case reply of
        Inr (PDict d) \<Rightarrow>
          \<not> dict_has d ''errors''
          \<and> (case dict_get_or d ''data'' (PDict []) of
                PDict data \<Rightarrow>
                  list_all (\<lambda>fragment. case map_of data (alias_of fragment) of
                                         Some result \<Rightarrow> mutation_succeeded result
                                       | None \<Rightarrow> False) batch
              | _ \<Rightarrow> False)
      | _ \<Rightarrow> False)"

section \<open>Example data\<close>

definition example_world :: world where
  "example_world = initial_world (\<lambda>n. Timeout) (\<lambda>n. Timeout)"

definition example_update :: pydict where
  "example_update =
     [(''config_id'', PInt 6), (''client_id'', PInt 12), (''client_name'', PStr ''ACME''),
      (''product_id'', PInt 7), (''product_name'', PStr ''Widget 2''),
      (''contact_name'', PStr ''Ann''), (''status'', PStr ''Active''),
      (''pipefy_record_id'', PStr ''99''), (''current_title'', PStr ''Widget'')]"

definition example_missing_keys :: pydict where
  "example_missing_keys = [(''business_unit_name'', PStr ''Ops'')]"

definition example_sources :: "pydict list" where
  "example_sources =
     [[(''config_id'', PInt 6), (''business_unit_id'', PInt 5),
       (''business_unit_name'', PStr ''Same''), (''status'', PStr ''Active'')],
      [(''config_id'', PInt 6), (''business_unit_id'', PInt 4),
       (''business_unit_name'', PStr ''New''), (''status'', PStr ''Active'')]]"

definition example_destinations :: "pydict list" where
  "example_destinations =
     [[(''pipefy_record_id'', PStr ''901''), (''title'', PStr ''Same''), (''config_id'', PStr ''6''),
       (''business_unit_id'', PStr ''5''), (''business_unit_name'', PStr ''Same''),
       (''status'', PStr ''Active'')],
      [(''pipefy_record_id'', PStr ''902''), (''title'', PStr ''Gone''), (''config_id'', PStr ''6''),
       (''business_unit_id'', PStr ''9''), (''business_unit_name'', PStr ''Gone''),
       (''status'', PStr ''Active'')]]"

definition example_chase_map :: "(string \<times> pydict) list" where
  "example_chase_map = [(''6-5'', example_sources ! 0), (''6-4'', example_sources ! 1)]"

definition example_pipefy_map :: "(string \<times> pydict) list" where
  "example_pipefy_map = [(''6-5'', example_destinations ! 0), (''6-9'', example_destinations ! 1)]"


definition example_mutations :: "string list" where
  "example_mutations = replicate 50 ''a: x'' @ [''b: y'']"

definition example_flaky_world :: world where
  "example_flaky_world =
     initial_world (\<lambda>n. Timeout)
       (\<lambda>n. if n < 3 then Timeout
            else Returned (PDict [(''data'',
                   PDict [(''b'', PDict [(''table_record'', PDict [(''id'', PStr ''1'')])])])]))"

section \<open>Properties of the sanitization\<close>

lemma is_space_simps:
  "is_space CHR '' ''" "is_space tab" "is_space newline" "is_space carriage_return"
  "\<not> is_space backslash" "\<not> is_space dquote"
  "\<not> is_space CHR ''t''" "\<not> is_space CHR ''n''" "\<not> is_space CHR ''r''"
  by (simp_all add: is_space_def code_point_def tab_def newline_def carriage_return_def
      backslash_def dquote_def)

lemma split_scan_words:
  "\<forall>c\<in>set cur. \<not> is_space c \<Longrightarrow> w \<in> set (split_scan cur s) \<Longrightarrow> word_ok w"
proof (induction s arbitrary: cur)
  case Nil
  then show ?case by (auto simp: word_ok_def split: if_splits)
next
  case (Cons a s)
  show ?case
  proof (cases "is_space a")
    case True
    then have "w = cur \<and> cur \<noteq> [] \<or> w \<in> set (split_scan [] s)"
      using Cons.prems(2) by (auto split: if_splits)
    then show ?thesis
      using Cons.IH [of "[]"] Cons.prems(1) by (auto simp: word_ok_def)
  next
    case False
    then have "w \<in> set (split_scan (cur @ [a]) s)" using Cons.prems(2) by simp
    then show ?thesis using Cons.IH [of "cur @ [a]"] Cons.prems(1) False by auto
  qed
qed

lemma py_split_words: "w \<in> set (py_split s) \<Longrightarrow> word_ok w"
  unfolding py_split_def using split_scan_words [of "[]" w s] by simp

lemma split_scan_append:
  "\<forall>c\<in>set w. \<not> is_space c \<Longrightarrow> split_scan cur (w @ s) = split_scan (cur @ w) s"
  by (induction w arbitrary: cur) auto

lemma split_scan_join:
  "\<forall>w\<in>set ws. word_ok w \<Longrightarrow> word_ok v \<Longrightarrow>
   split_scan [] (py_join '' '' (v # ws)) = v # ws"
proof (induction ws arbitrary: v)
  case Nil
  then show ?case using split_scan_append [of v "[]" "[]"] by (simp add: word_ok_def)
next
  case (Cons u us)
  have "split_scan [] (v @ CHR '' '' # py_join '' '' (u # us))
        = split_scan v (CHR '' '' # py_join '' '' (u # us))"
    using Cons.prems split_scan_append [of v "[]"] by (simp add: word_ok_def)
  also have "\<dots> = v # split_scan [] (py_join '' '' (u # us))"
    using Cons.prems by (simp add: word_ok_def is_space_simps)
  also have "\<dots> = v # u # us" using Cons by simp
  finally show ?case by simp
qed

lemma py_split_join: "\<forall>w\<in>set ws. word_ok w \<Longrightarrow> py_split (py_join '' '' ws) = ws"
  by (cases ws) (simp_all add: py_split_def split_scan_join)

lemma replace_char_append [simp]:
  "replace_char c rep (a @ b) = replace_char c rep a @ replace_char c rep b"
  by (simp add: replace_char_def)

lemma replace_char_Nil [simp]: "replace_char c rep [] = []"
  by (simp add: replace_char_def)

lemma replace_char_Cons:
  "replace_char c rep (x # xs) = (if x = c then rep else [x]) @ replace_char c rep xs"
  by (simp add: replace_char_def)

lemma replace_char_id: "c \<notin> set s \<Longrightarrow> replace_char c rep s = s"
  by (induction s) (auto simp: replace_char_Cons)

lemma set_replace_char:
  "set (replace_char c rep s) = (set s - {c}) \<union> (if c \<in> set s then set rep else {})"
  by (induction s) (auto simp: replace_char_Cons)

lemma length_replace_char:
  "length rep = 2 \<Longrightarrow> length (replace_char c rep s) = length s + count_list s c"
  by (induction s) (auto simp: replace_char_Cons)

lemma escape_graphql_append:
  "escape_graphql (a @ b) = escape_graphql a @ escape_graphql b"
  by (simp add: escape_graphql_def)

lemma escape_graphql_space: "escape_graphql '' '' = '' ''"
  by (simp add: escape_graphql_def replace_char_def tab_def carriage_return_def newline_def
      dquote_def backslash_def)

lemma escape_graphql_join:
  "escape_graphql (py_join '' '' ws) = py_join '' '' (map escape_graphql ws)"
proof (induction "'' ''" ws rule: py_join.induct)
  case (3 w v ws)
  have "escape_graphql (w @ '' '' @ py_join '' '' (v # ws))
        = escape_graphql w @ '' '' @ escape_graphql (py_join '' '' (v # ws))"
    by (simp only: escape_graphql_append escape_graphql_space)
  then show ?case using 3 by simp
qed (simp_all add: escape_graphql_def)

lemma set_replace_char_subset: "set (replace_char c rep s) \<subseteq> set s \<union> set rep"
  by (auto simp: set_replace_char split: if_splits)

lemma set_escape_graphql:
  "set (escape_graphql s) \<subseteq> set s \<union> {backslash, dquote, CHR ''t'', CHR ''n'', CHR ''r''}"
proof -
  let ?r1 = "replace_char backslash [backslash, backslash] s"
  let ?r2 = "replace_char dquote [backslash, dquote] ?r1"
  let ?r3 = "replace_char newline [backslash, CHR ''n''] ?r2"
  let ?r4 = "replace_char carriage_return [backslash, CHR ''r''] ?r3"
  let ?r5 = "replace_char tab [backslash, CHR ''t''] ?r4"
  let ?E = "{backslash, dquote, CHR ''t'', CHR ''n'', CHR ''r''}"
  have 1: "set ?r1 \<subseteq> set s \<union> ?E" using set_replace_char_subset [of backslash "[backslash, backslash]" s] by auto
  have 2: "set ?r2 \<subseteq> set s \<union> ?E" using 1 set_replace_char_subset [of dquote "[backslash, dquote]" ?r1] by auto
  have 3: "set ?r3 \<subseteq> set s \<union> ?E" using 2 set_replace_char_subset [of newline "[backslash, CHR ''n'']" ?r2] by auto
  have 4: "set ?r4 \<subseteq> set s \<union> ?E" using 3 set_replace_char_subset [of carriage_return "[backslash, CHR ''r'']" ?r3] by auto
  have 5: "set ?r5 \<subseteq> set s \<union> ?E" using 4 set_replace_char_subset [of tab "[backslash, CHR ''t'']" ?r4] by auto
  show ?thesis unfolding escape_graphql_def by (rule 5)
qed

lemma length_escape_graphql: "length s \<le> length (escape_graphql s)"
  unfolding escape_graphql_def by (simp add: length_replace_char)

lemma word_ok_escape: "word_ok w \<Longrightarrow> word_ok (escape_graphql w)"
proof -
  assume w: "word_ok w"
  have "escape_graphql w \<noteq> []"
    using w length_escape_graphql [of w] by (auto simp: word_ok_def)
  moreover have "\<not> is_space c" if "c \<in> set (escape_graphql w)" for c
    using that w set_escape_graphql [of w] by (auto simp: word_ok_def is_space_simps)
  ultimately show ?thesis by (simp add: word_ok_def)
qed

lemma normalize_ws_escape:
  "normalize_ws (escape_graphql (normalize_ws x)) = escape_graphql (normalize_ws x)"
proof -
  have "\<forall>w\<in>set (map escape_graphql (py_split x)). word_ok w"
    using py_split_words word_ok_escape by auto
  then show ?thesis
    unfolding normalize_ws_def escape_graphql_join by (simp add: py_split_join)
qed

lemma escape_graphql_id: "\<forall>c\<in>set s. \<not> special c \<Longrightarrow> escape_graphql s = s"
proof -
  assume "\<forall>c\<in>set s. \<not> special c"
  then have "backslash \<notin> set s" "dquote \<notin> set s" "newline \<notin> set s"
    "carriage_return \<notin> set s" "tab \<notin> set s"
    by (auto simp: special_def)
  then show ?thesis unfolding escape_graphql_def by (simp add: replace_char_id)
qed

lemma count_list_pos: "0 < count_list xs x \<longleftrightarrow> x \<in> set xs"
  using count_list_0_iff [of xs x] by auto

lemma special_neq:
  "dquote \<noteq> backslash" "newline \<noteq> backslash" "newline \<noteq> dquote"
  "carriage_return \<noteq> backslash" "carriage_return \<noteq> dquote" "carriage_return \<noteq> newline"
  "tab \<noteq> backslash" "tab \<noteq> dquote" "tab \<noteq> newline" "tab \<noteq> carriage_return"
  "backslash \<noteq> dquote" "backslash \<noteq> newline" "backslash \<noteq> carriage_return"
  "backslash \<noteq> tab"
  by (simp_all add: backslash_def dquote_def newline_def carriage_return_def tab_def)

lemma replace_char_keeps:
  "x \<in> set s \<Longrightarrow> x \<noteq> c \<Longrightarrow> x \<in> set (replace_char c rep s)"
  by (simp add: set_replace_char)

lemma length_replace_char_le: "length rep = 2 \<Longrightarrow> length s \<le> length (replace_char c rep s)"
  by (simp add: length_replace_char)

lemma length_replace_char_less:
  "length rep = 2 \<Longrightarrow> c \<in> set s \<Longrightarrow> length s < length (replace_char c rep s)"
  by (simp add: length_replace_char count_list_pos)

lemma length_escape_graphql_special:
  assumes "c \<in> set s" "special c"
  shows "length s < length (escape_graphql s)"
proof -
  let ?r1 = "replace_char backslash [backslash, backslash] s"
  let ?r2 = "replace_char dquote [backslash, dquote] ?r1"
  let ?r3 = "replace_char newline [backslash, CHR ''n''] ?r2"
  let ?r4 = "replace_char carriage_return [backslash, CHR ''r''] ?r3"
  let ?r5 = "replace_char tab [backslash, CHR ''t''] ?r4"
  have l1: "length s \<le> length ?r1" by (rule length_replace_char_le) simp
  have l2: "length ?r1 \<le> length ?r2" by (rule length_replace_char_le) simp
  have l3: "length ?r2 \<le> length ?r3" by (rule length_replace_char_le) simp
  have l4: "length ?r3 \<le> length ?r4" by (rule length_replace_char_le) simp
  have l5: "length ?r4 \<le> length ?r5" by (rule length_replace_char_le) simp
  note d = special_neq
  consider "c = backslash" | "c = dquote" | "c = newline" | "c = carriage_return" | "c = tab"
    using assms(2) unfolding special_def by blast
  then have "length s < length ?r5"
  proof cases
    case 1
    then have "length s < length ?r1" using assms(1) by (simp add: length_replace_char_less)
    then show ?thesis using l2 l3 l4 l5 by linarith
  next
    case 2
    then have "c \<in> set ?r1" using assms(1) d by (simp add: replace_char_keeps)
    then have "length ?r1 < length ?r2" using 2 by (simp add: length_replace_char_less)
    then show ?thesis using l1 l3 l4 l5 by linarith
  next
    case 3
    then have "c \<in> set ?r2" using assms(1) d by (simp add: replace_char_keeps)
    then have "length ?r2 < length ?r3" using 3 by (simp add: length_replace_char_less)
    then show ?thesis using l1 l2 l4 l5 by linarith
  next
    case 4
    then have "c \<in> set ?r3" using assms(1) d by (simp add: replace_char_keeps)
    then have "length ?r3 < length ?r4" using 4 by (simp add: length_replace_char_less)
    then show ?thesis using l1 l2 l3 l5 by linarith
  next
    case 5
    then have "c \<in> set ?r4" using assms(1) d by (simp add: replace_char_keeps)
    then have "length ?r4 < length ?r5" using 5 by (simp add: length_replace_char_less)
    then show ?thesis using l1 l2 l3 l4 by linarith
  qed
  then show ?thesis unfolding escape_graphql_def .
qed

lemma escape_graphql_fixed: "escape_graphql s = s \<longleftrightarrow> (\<forall>c\<in>set s. \<not> special c)"
  using escape_graphql_id [of s] length_escape_graphql_special [of _ s] by fastforce

lemma set_py_join:
  "set (py_join '' '' ws) - {CHR '' ''} = (\<Union>w\<in>set ws. set w) - {CHR '' ''}"
  by (induction "'' ''" ws rule: py_join.induct) auto

lemma set_split_scan:
  "(\<Union>w\<in>set (split_scan cur s). set w) = set cur \<union> {c \<in> set s. \<not> is_space c}"
  by (induction s arbitrary: cur) auto

lemma set_normalize_ws:
  "\<not> is_space c \<Longrightarrow> c \<in> set (normalize_ws x) \<longleftrightarrow> c \<in> set x"
proof -
  assume c: "\<not> is_space c"
  then have "c \<noteq> CHR '' ''" using is_space_simps by auto
  then have "c \<in> set (normalize_ws x) \<longleftrightarrow> c \<in> (\<Union>w\<in>set (py_split x). set w)"
    using set_py_join [of "py_split x"] unfolding normalize_ws_def by blast
  then show ?thesis using c by (simp add: py_split_def set_split_scan)
qed

lemma backslash_in_escape:
  assumes "c \<in> set s" "c = backslash \<or> c = dquote"
  shows "backslash \<in> set (escape_graphql s)"
proof -
  note d = special_neq
  let ?r1 = "replace_char backslash [backslash, backslash] s"
  let ?r2 = "replace_char dquote [backslash, dquote] ?r1"
  have "backslash \<in> set ?r2"
  proof (cases "c = backslash")
    case True
    then have "backslash \<in> set ?r1" using assms(1) by (simp add: set_replace_char)
    then show ?thesis using d by (simp add: replace_char_keeps)
  next
    case False
    then have "dquote \<in> set ?r1" using assms d by (simp add: replace_char_keeps)
    then show ?thesis by (simp add: set_replace_char)
  qed
  then show ?thesis unfolding escape_graphql_def using d by (simp add: replace_char_keeps)
qed

lemma normalize_ws_chars:
  "c \<in> set (normalize_ws x) \<Longrightarrow> c = CHR '' '' \<or> \<not> is_space c"
proof -
  assume c: "c \<in> set (normalize_ws x)"
  show ?thesis
  proof (cases "c = CHR '' ''")
    case False
    then have "c \<in> (\<Union>w\<in>set (py_split x). set w)"
      using c set_py_join [of "py_split x"] unfolding normalize_ws_def by blast
    then show ?thesis using py_split_words by (auto simp: word_ok_def)
  qed simp
qed

lemma sanitize_twice:
  "sanitize_graphql_string (PStr (sanitize_graphql_string (PStr x)))
   = escape_graphql (escape_graphql (normalize_ws x))"
  by (simp add: sanitize_graphql_string_def py_str_def normalize_ws_escape)

text \<open>
  Claim C5, as amended. Re-applying the sanitization to a sanitized string gives the same
  string exactly when the original string contains neither a backslash nor a double quote:
  the whitespace normalization is idempotent, but each pass escapes every backslash again.
\<close>

theorem sanitize_idempotent_iff:
  "sanitize_graphql_string (PStr (sanitize_graphql_string (PStr x))) = sanitize_graphql_string (PStr x)
   \<longleftrightarrow> backslash \<notin> set x \<and> dquote \<notin> set x"
proof -
  let ?n = "normalize_ws x"
  have nb: "\<not> is_space backslash" "\<not> is_space dquote" by (simp_all add: is_space_simps)
  have lhs: "sanitize_graphql_string (PStr (sanitize_graphql_string (PStr x)))
        = sanitize_graphql_string (PStr x)
     \<longleftrightarrow> (\<forall>c\<in>set (escape_graphql ?n). \<not> special c)"
    unfolding sanitize_twice
    by (simp add: sanitize_graphql_string_def py_str_def escape_graphql_fixed)
  show ?thesis
  proof
    assume "sanitize_graphql_string (PStr (sanitize_graphql_string (PStr x)))
        = sanitize_graphql_string (PStr x)"
    then have ns: "\<forall>c\<in>set (escape_graphql ?n). \<not> special c" using lhs by simp
    have "backslash \<notin> set ?n"
      using ns backslash_in_escape [of backslash ?n] by (auto simp: special_def)
    moreover have "dquote \<notin> set ?n"
      using ns backslash_in_escape [of dquote ?n] by (auto simp: special_def)
    ultimately show "backslash \<notin> set x \<and> dquote \<notin> set x"
      using nb by (simp add: set_normalize_ws)
  next
    assume x: "backslash \<notin> set x \<and> dquote \<notin> set x"
    have "\<not> special c" if "c \<in> set ?n" for c
    proof -
      have "c \<noteq> backslash" "c \<noteq> dquote" using x that nb by (auto simp: set_normalize_ws)
      moreover have "c \<noteq> newline" "c \<noteq> carriage_return" "c \<noteq> tab"
        using normalize_ws_chars [OF that] is_space_simps
        by (auto simp: newline_def carriage_return_def tab_def)
      ultimately show ?thesis by (simp add: special_def)
    qed
    then have "escape_graphql ?n = ?n" "\<forall>c\<in>set ?n. \<not> special c"
      by (simp_all add: escape_graphql_id)
    then show "sanitize_graphql_string (PStr (sanitize_graphql_string (PStr x)))
        = sanitize_graphql_string (PStr x)"
      using lhs by simp
  qed
qed

theorem sanitize_idempotent_iff_witness:
  "sanitize_graphql_string (PStr (sanitize_graphql_string (PStr ''  ACME   Ltd '')))
   = sanitize_graphql_string (PStr ''  ACME   Ltd '')"
  using sanitize_idempotent_iff [of "''  ACME   Ltd ''"]
  by (simp add: backslash_def dquote_def)

text \<open>Claim C5 as stated fails on the string made of one backslash.\<close>

theorem sanitize_not_idempotent:
  "sanitize_graphql_string (PStr (sanitize_graphql_string (PStr [backslash])))
   \<noteq> sanitize_graphql_string (PStr [backslash])"
  by (simp add: sanitize_graphql_string_def py_str_def normalize_ws_def py_split_def
      escape_graphql_def replace_char_def is_space_simps backslash_def dquote_def
      tab_def newline_def carriage_return_def is_space_def code_point_def)

section \<open>Properties of the batching\<close>

lemma batches_from_concat_aux: "concat (batches_from i ms) = drop i ms"
proof (induction i ms rule: batches_from.induct)
  case (1 i ms)
  show ?case
  proof (cases "i < length ms")
    case True
    have "take batch_size (drop i ms) @ drop (i + batch_size) ms = drop i ms"
      using append_take_drop_id [of batch_size "drop i ms"] by (simp add: add.commute)
    then show ?thesis
      using 1 True by (subst batches_from.simps) simp
  next
    case False
    then show ?thesis by (subst batches_from.simps) simp
  qed
qed

lemma ceil_step: "0 < (n::nat) \<Longrightarrow> Suc ((n - 50 + 49) div 50) = (n + 49) div 50"
proof (cases "n < 50")
  case True
  assume "0 < n"
  with True have "n - 50 + 49 = 49" "(n + 49) div 50 = 1" by auto
  then show ?thesis by simp
next
  case False
  then have "n + 49 = (n - 50 + 49) + 50" by simp
  then have "(n + 49) div 50 = (n - 50 + 49) div 50 + 1"
    using div_add_self2 [of 50 "n - 50 + 49"] by simp
  then show ?thesis by simp
qed

lemma batches_from_length_aux:
  "length (batches_from i ms) = (length ms - i + 49) div 50"
proof (induction i ms rule: batches_from.induct)
  case (1 i ms)
  show ?case
  proof (cases "i < length ms")
    case True
    then have "length (batches_from i ms) = Suc (length (batches_from (i + batch_size) ms))"
      by (subst batches_from.simps) simp
    also have "\<dots> = Suc ((length ms - (i + batch_size) + 49) div 50)"
      using 1 [OF True] by simp
    also have "\<dots> = Suc ((length ms - i - 50 + 49) div 50)"
      by (simp only: batch_size_def diff_diff_left)
    also have "\<dots> = (length ms - i + 49) div 50"
      using True ceil_step [of "length ms - i"] by simp
    finally show ?thesis .
  next
    case False
    then have "batches_from i ms = []" by (subst batches_from.simps) simp
    then show ?thesis using False by simp
  qed
qed

lemma ceil_bounds:
  "(n::nat) \<le> 50 * ((n + 49) div 50) \<and> 50 * ((n + 49) div 50) < n + 50"
proof -
  have "50 * ((n + 49) div 50) + (n + 49) mod 50 = n + 49" by simp
  moreover have "(n + 49) mod 50 < 50" by simp
  ultimately show ?thesis by linarith
qed

lemma batches_from_sizes:
  "b \<in> set (batches_from i ms) \<Longrightarrow> 0 < length b \<and> length b \<le> batch_size"
proof (induction i ms rule: batches_from.induct)
  case (1 i ms)
  show ?case
  proof (cases "i < length ms")
    case True
    then have "b = take batch_size (drop i ms) \<or> b \<in> set (batches_from (i + batch_size) ms)"
      using "1.prems" by (subst (asm) batches_from.simps) simp
    then show ?thesis
    proof
      assume "b = take batch_size (drop i ms)"
      then show ?thesis using True by (simp add: batch_size_def)
    next
      assume "b \<in> set (batches_from (i + batch_size) ms)"
      then show ?thesis using "1.IH" [OF True] by simp
    qed
  next
    case False
    then have "batches_from i ms = []" by (subst batches_from.simps) simp
    then show ?thesis using "1.prems" by simp
  qed
qed

text \<open>
  Claim C9. The batches that \<^verbatim>\<open>execute_pipefy_mutations\<close> cuts from a list of \<open>N\<close>
  fragments concatenate, in order, to the list; there are \<open>(N + 49) div 50\<close> of them, which
  is the least \<open>n\<close> with \<open>N \<le> 50 * n\<close>, that is \<open>ceil(N/50)\<close>; and each batch holds at
  least one and at most 50 fragments.
\<close>

theorem batching_partitions:
  "concat (batches_from 0 mutations) = mutations
   \<and> length (batches_from 0 mutations) = (length mutations + 49) div 50
   \<and> length mutations \<le> 50 * length (batches_from 0 mutations)
   \<and> 50 * length (batches_from 0 mutations) < length mutations + 50
   \<and> list_all (\<lambda>batch. 0 < length batch \<and> length batch \<le> 50) (batches_from 0 mutations)"
proof -
  have len: "length (batches_from 0 mutations) = (length mutations + 49) div 50"
    by (simp add: batches_from_length_aux)
  have "list_all (\<lambda>batch. 0 < length batch \<and> length batch \<le> 50) (batches_from 0 mutations)"
    unfolding list_all_iff using batches_from_sizes [of _ 0 mutations]
    by (simp add: batch_size_def)
  then show ?thesis
    using len ceil_bounds [of "length mutations"] by (simp add: batches_from_concat_aux)
qed

text \<open>
  Claim C10. On the empty list \<^verbatim>\<open>execute_pipefy_mutations\<close> returns \<^verbatim>\<open>True\<close>; it
  only writes the log line, and sends no request.
\<close>

theorem execute_empty:
  "execute_pipefy_mutations [] w = (Inr True, log ''No mutations to execute.'' [] w)
   \<and> posts (snd (execute_pipefy_mutations [] w)) = posts w
   \<and> gets (snd (execute_pipefy_mutations [] w)) = gets w
   \<and> sleeps (snd (execute_pipefy_mutations [] w)) = sleeps w"
  by (simp add: execute_pipefy_mutations_def log_def)

section \<open>Properties of the transport\<close>

lemma log_frame [simp]:
  "posts (log t args w) = posts w" "post_outcomes (log t args w) = post_outcomes w"
  "gets (log t args w) = gets w" "sleeps (log t args w) = sleeps w"
  "DONE_PHASE_CACHE (log t args w) = DONE_PHASE_CACHE w"
  "get_outcomes (log t args w) = get_outcomes w"
  by (simp_all add: log_def)

lemma sleep_frame [simp]:
  "posts (sleep d w) = posts w" "post_outcomes (sleep d w) = post_outcomes w"
  "gets (sleep d w) = gets w" "logs (sleep d w) = logs w"
  "DONE_PHASE_CACHE (sleep d w) = DONE_PHASE_CACHE w"
  "get_outcomes (sleep d w) = get_outcomes w"
  by (simp_all add: sleep_def)

lemma pipefy_attempt_transient:
  assumes "transient (post_outcomes w (length (posts w)))"
  shows "\<exists>w'. pipefy_attempt payload attempt delay w = (Inr None, w')
            \<and> posts w' = posts w @ [payload] \<and> post_outcomes w' = post_outcomes w"
  using assms
  by (auto simp: pipefy_attempt_def transient_def Let_def split: outcome.splits)

lemma pipefy_attempt_retried:
  assumes "retried (post_outcomes w (length (posts w)))" "attempt \<noteq> max_retries - 1"
  shows "\<exists>w'. pipefy_attempt payload attempt delay w = (Inr None, w')
            \<and> posts w' = posts w @ [payload] \<and> post_outcomes w' = post_outcomes w"
  using assms
  by (auto simp: pipefy_attempt_def transient_def retried_def has_errors_def Let_def
      split: outcome.splits pyval.splits)

lemma pipefy_post_from_client_error:
  assumes "a < max_retries" "post_outcomes w (length (posts w)) = RequestException st e"
    "client_error st"
  shows "fst (pipefy_post_from a d payload w) = Inr (error_result (''Pipefy Client Error: '' @ e))"
  using assms by (subst pipefy_post_from.simps) (simp add: pipefy_attempt_def Let_def)

lemma pipefy_post_exhausted:
  assumes r1: "retried (post_outcomes w (length (posts w)))"
    and r2: "retried (post_outcomes w (length (posts w) + 1))"
    and t3: "transient (post_outcomes w (length (posts w) + 2))"
  shows "fst (pipefy_post payload w) = Inr (error_result ''Pipefy API call failed after multiple retries'')"
proof -
  obtain w1 where w1: "pipefy_attempt payload 0 5 w = (Inr None, w1)"
    "posts w1 = posts w @ [payload]" "post_outcomes w1 = post_outcomes w"
    using pipefy_attempt_retried [OF r1, of 0 payload 5] by (auto simp: max_retries_def)
  let ?v1 = "sleep 5 w1"
  have "retried (post_outcomes ?v1 (length (posts ?v1)))" using r2 w1 by simp
  then obtain w2 where w2: "pipefy_attempt payload 1 10 ?v1 = (Inr None, w2)"
    "posts w2 = posts ?v1 @ [payload]" "post_outcomes w2 = post_outcomes ?v1"
    using pipefy_attempt_retried [of ?v1 1 payload 10] by (auto simp: max_retries_def)
  let ?v2 = "sleep 10 w2"
  have "transient (post_outcomes ?v2 (length (posts ?v2)))" using t3 w1 w2 by simp
  then obtain w3 where w3: "pipefy_attempt payload 2 20 ?v2 = (Inr None, w3)"
    using pipefy_attempt_transient [of ?v2 payload 2 20] by auto
  have s3: "fst (pipefy_post_from 2 20 payload ?v2)
      = Inr (error_result ''Pipefy API call failed after multiple retries'')"
    using w3 by (subst pipefy_post_from.simps) (simp add: max_retries_def)
  have s2: "pipefy_post_from 1 10 payload ?v1 = pipefy_post_from 2 20 payload ?v2"
    using w2 by (subst pipefy_post_from.simps) (simp add: max_retries_def numeral_2_eq_2)
  have s1: "pipefy_post_from 0 5 payload w = pipefy_post_from 1 10 payload ?v1"
    using w1 by (subst pipefy_post_from.simps) (simp add: max_retries_def)
  show ?thesis unfolding pipefy_post_def s1 s2 s3 ..
qed

text \<open>
  An unparseable body is an outcome of its own, and the properties below say what the code
  does with it: the clause for \<^verbatim>\<open>RequestException\<close> logs it with the status
  \<^verbatim>\<open>N/A\<close> and lets the loop go on, so that a service that only sends unparseable
  bodies is asked three times, with pauses of 5 and 10 seconds, and \<^verbatim>\<open>pipefy_post\<close>
  ends with the message of the exhausted retries. The message
  "Pipefy returned non-JSON response" of the clause for \<^verbatim>\<open>json.JSONDecodeError\<close> is
  never returned.
\<close>

lemma pipefy_attempt_unparseable_body:
  assumes "post_outcomes w (length (posts w)) = JSONDecodeError e"
  shows "pipefy_attempt payload attempt delay w =
           (Inr None,
            log ''ERROR: Pipefy API request failed (Attempt {attempt+1}). Status: {e.response.status_code if e.response else 'N/A'}. Error: {e}''
              [PInt (int attempt + 1), PStr ''N/A'', PStr e] (w\<lparr>posts := posts w @ [payload]\<rparr>))"
  using assms by (simp add: pipefy_attempt_def Let_def client_error_def status_for_log_def)

lemma pipefy_post_unparseable_body_retried:
  "fst (pipefy_post (PDict []) (initial_world (\<lambda>n. Timeout) (\<lambda>n. JSONDecodeError ''Expecting value: line 1 column 1 (char 0)'')))
     = Inr (error_result ''Pipefy API call failed after multiple retries'')"
  "sleeps (snd (pipefy_post (PDict []) (initial_world (\<lambda>n. Timeout) (\<lambda>n. JSONDecodeError ''Expecting value: line 1 column 1 (char 0)''))))
     = [5, 10]"
  "length (posts (snd (pipefy_post (PDict []) (initial_world (\<lambda>n. Timeout) (\<lambda>n. JSONDecodeError ''Expecting value: line 1 column 1 (char 0)'')))))
     = 3"
  by (simp_all add: pipefy_post_def pipefy_post_from.simps pipefy_attempt_def initial_world_def
      max_retries_def log_def sleep_def client_error_def)

text \<open>
  Claim C6, as amended for \<^verbatim>\<open>pipefy_post\<close>. When the first two attempts are retried (a
  timeout, a request error with a response that is not a non-429 4xx or with no response, or
  a reply with \<^verbatim>\<open>"errors"\<close>) and the third attempt fails with a timeout or such a
  request error, \<^verbatim>\<open>pipefy_post\<close> returns the error object with the message
  "Pipefy API call failed after multiple retries". A non-429 4xx at any attempt returns the
  error object with "Pipefy Client Error: ...", and the exhausted result differs from it.
  Nothing is said about an unparseable body.
\<close>

theorem pipefy_post_failures_distinct:
  assumes "retried (post_outcomes w (length (posts w)))"
    and "retried (post_outcomes w (length (posts w) + 1))"
    and "transient (post_outcomes w (length (posts w) + 2))"
    and "a < max_retries" and "post_outcomes wc (length (posts wc)) = RequestException st e"
    and "client_error st"
  shows "fst (pipefy_post payload w) = Inr (error_result ''Pipefy API call failed after multiple retries'')
    \<and> fst (pipefy_post_from a d payload wc) = Inr (error_result (''Pipefy Client Error: '' @ e))
    \<and> fst (pipefy_post payload w) \<noteq> fst (pipefy_post_from a d payload wc)"
  using pipefy_post_exhausted [OF assms(1-3), of payload]
    pipefy_post_from_client_error [OF assms(4-6), of d payload]
  by (simp add: error_result_def)

theorem pipefy_post_failures_distinct_witness:
  "fst (pipefy_post (PDict []) (initial_world (\<lambda>n. Timeout) (\<lambda>n. Timeout)))
     = Inr (error_result ''Pipefy API call failed after multiple retries'')
   \<and> fst (pipefy_post_from 0 5 (PDict [])
        (initial_world (\<lambda>n. Timeout) (\<lambda>n. RequestException (Some 404) ''404 Client Error: Not Found'')))
     = Inr (error_result (''Pipefy Client Error: '' @ ''404 Client Error: Not Found''))
   \<and> fst (pipefy_post (PDict []) (initial_world (\<lambda>n. Timeout) (\<lambda>n. Timeout)))
     \<noteq> fst (pipefy_post_from 0 5 (PDict [])
        (initial_world (\<lambda>n. Timeout) (\<lambda>n. RequestException (Some 404) ''404 Client Error: Not Found'')))"
proof -
  let ?w = "initial_world (\<lambda>n. Timeout) (\<lambda>n. Timeout)"
  let ?wc = "initial_world (\<lambda>n. Timeout) (\<lambda>n. RequestException (Some 404) ''404 Client Error: Not Found'')"
  have h1: "retried (post_outcomes ?w (length (posts ?w)))"
    and h2: "retried (post_outcomes ?w (length (posts ?w) + 1))"
    and h3: "transient (post_outcomes ?w (length (posts ?w) + 2))"
    by (simp_all add: initial_world_def retried_def transient_def)
  have h4: "(0::nat) < max_retries" by (simp add: max_retries_def)
  have h5: "post_outcomes ?wc (length (posts ?wc)) = RequestException (Some 404) ''404 Client Error: Not Found''"
    by (simp add: initial_world_def)
  have h6: "client_error (Some 404)" by (simp add: client_error_def)
  show ?thesis
    by (rule pipefy_post_failures_distinct [OF h1 h2 h3 h4 h5 h6])
qed

text \<open>
  Claim C6 as stated fails for \<^verbatim>\<open>chase_api_get\<close>: after three timeouts and after a
  404 it returns the same value \<^verbatim>\<open>None\<close>.
\<close>

theorem chase_api_get_failures_same:
  "fst (chase_api_get ''/api/Config'' PNone PNone (initial_world (\<lambda>n. Timeout) (\<lambda>n. Timeout)))
     = Inr PNone
   \<and> fst (chase_api_get ''/api/Config'' PNone PNone
        (initial_world (\<lambda>n. RequestException (Some 404) ''404 Client Error: Not Found'') (\<lambda>n. Timeout)))
     = Inr PNone"
  by (simp add: chase_api_get_def chase_api_get_from.simps chase_attempt_def initial_world_def
      max_retries_def log_def sleep_def client_error_def)

section \<open>Properties of the mutation builder\<close>

lemma digit_char_inj: "a < 10 \<Longrightarrow> b < 10 \<Longrightarrow> digit_char a = digit_char b \<Longrightarrow> a = b"
proof -
  assume a: "a < 10" and b: "b < 10" and eq: "digit_char a = digit_char b"
  have "of_char (digit_char a) = (48 + a) mod 256" "of_char (digit_char b) = (48 + b) mod 256"
    by (simp_all add: digit_char_def)
  then have "(48 + a) mod 256 = (48 + b) mod 256" using eq by (metis (no_types))
  then show ?thesis using a b by simp
qed

lemma digit_char_decimal: "a < 10 \<Longrightarrow> is_decimal (digit_char a)"
  by (simp add: is_decimal_def code_point_def digit_char_def)

lemma nat_str_nonempty: "nat_str n \<noteq> []"
  by (subst nat_str.simps) simp

lemma nat_str_decimal: "c \<in> set (nat_str n) \<Longrightarrow> is_decimal c"
proof (induction n rule: nat_str.induct)
  case (1 n)
  show ?case
  proof (cases "n < 10")
    case True
    then show ?thesis using "1.prems" digit_char_decimal [of n]
      by (subst (asm) nat_str.simps) simp
  next
    case False
    then have "c \<in> set (nat_str (n div 10)) \<or> c = digit_char (n mod 10)"
      using "1.prems" by (subst (asm) nat_str.simps) auto
    then show ?thesis using "1.IH" False digit_char_decimal [of "n mod 10"] by auto
  qed
qed

lemma nat_str_inj: "nat_str m = nat_str n \<Longrightarrow> m = n"
proof (induction m arbitrary: n rule: nat_str.induct)
  case (1 m)
  show ?case
  proof (cases "m < 10")
    case m: True
    show ?thesis
    proof (cases "n < 10")
      case True
      then show ?thesis using "1.prems" m digit_char_inj [of m n]
        by (subst (asm) nat_str.simps, subst (asm) (2) nat_str.simps) simp
    next
      case False
      have "nat_str m = [digit_char m]" using m by (subst nat_str.simps) simp
      moreover have "nat_str n = nat_str (n div 10) @ [digit_char (n mod 10)]"
        using False by (subst nat_str.simps) simp
      ultimately show ?thesis using "1.prems" nat_str_nonempty [of "n div 10"] by simp
    qed
  next
    case m: False
    have sm: "nat_str m = nat_str (m div 10) @ [digit_char (m mod 10)]"
      using m by (subst nat_str.simps) simp
    show ?thesis
    proof (cases "n < 10")
      case True
      have "nat_str n = [digit_char n]" using True by (subst nat_str.simps) simp
      then show ?thesis using "1.prems" sm nat_str_nonempty [of "m div 10"] by simp
    next
      case False
      have sn: "nat_str n = nat_str (n div 10) @ [digit_char (n mod 10)]"
        using False by (subst nat_str.simps) simp
      have "nat_str (m div 10) = nat_str (n div 10)" "digit_char (m mod 10) = digit_char (n mod 10)"
        using "1.prems" sm sn by simp_all
      then have "m div 10 = n div 10" "m mod 10 = n mod 10"
        using "1.IH" [OF m] digit_char_inj [of "m mod 10" "n mod 10"] by simp_all
      then show ?thesis by (metis div_mult_mod_eq)
    qed
  qed
qed

lemma is_word_char_colon: "\<not> is_word_char CHR '':''" "\<not> is_word_char CHR ''(''"
  by (simp_all add: is_word_char_def code_point_def)

lemma re_sub_identifier_chars:
  "c \<in> set (re_sub_identifier s) \<Longrightarrow> is_word_char c"
  by (auto simp: re_sub_identifier_def is_word_char_def code_point_def split: if_splits)

lemma unique_suffix_chars: "c \<in> set (unique_suffix action ks i record) \<Longrightarrow> is_word_char c"
  unfolding unique_suffix_def Let_def by (rule re_sub_identifier_chars)

lemma is_decimal_word: "is_decimal c \<Longrightarrow> is_word_char c"
  by (simp add: is_decimal_def is_word_char_def)

lemma re_sub_identifier_letter:
  "s \<noteq> [] \<Longrightarrow> \<not> is_decimal (hd s) \<Longrightarrow>
   re_sub_identifier s = map (\<lambda>c. if is_word_char c then c else CHR ''_'') s"
  by (simp add: re_sub_identifier_def)

lemma map_word_id:
  "\<forall>c\<in>set s. is_word_char c \<Longrightarrow> map (\<lambda>c. if is_word_char c then c else CHR ''_'') s = s"
  by (induction s) auto

lemma unique_suffix_shape:
  assumes "action = ''create'' \<or> action = ''update'' \<or> action = ''archive''"
  shows "\<exists>K. unique_suffix action ks i record = action @ ''_'' @ nat_str i @ ''_'' @ K"
proof -
  let ?f = "\<lambda>c. if is_word_char c then c else CHR ''_''"
  let ?J = "py_join ''_'' (map (\<lambda>k. py_str (dict_get_or record k (PStr []))) ks)"
  have ra: "replace_char CHR ''-'' ''_'' action = action"
    using assms by (auto simp: replace_char_def)
  have wa: "\<forall>c\<in>set action. is_word_char c"
    using assms by (auto simp: is_word_char_def code_point_def)
  have hd: "action \<noteq> []" "\<not> is_decimal (hd (action @ ''_'' @ nat_str i @ ''_'' @ ?J))"
    using assms by (auto simp: is_decimal_def code_point_def)
  have wn: "\<forall>c\<in>set (nat_str i). is_word_char c"
    using nat_str_decimal is_decimal_word by blast
  have "unique_suffix action ks i record = map ?f (action @ ''_'' @ nat_str i @ ''_'' @ ?J)"
    unfolding unique_suffix_def Let_def ra
    using hd by (intro re_sub_identifier_letter) simp_all
  also have "\<dots> = map ?f action @ ''_'' @ map ?f (nat_str i) @ ''_'' @ map ?f ?J"
    by (simp add: is_word_char_def code_point_def)
  also have "\<dots> = action @ ''_'' @ nat_str i @ ''_'' @ map ?f ?J"
    using wa wn by (simp add: map_word_id)
  finally show ?thesis by blast
qed

lemma takeWhile_until: "c \<notin> set a \<Longrightarrow> takeWhile (\<lambda>x. x \<noteq> c) (a @ c # rest) = a"
  by (induction a) auto


lemma alias_of_fragment:
  "CHR '':'' \<notin> set a \<Longrightarrow> alias_of (a @ '': '' @ body) = a"
  by (simp add: alias_of_def takeWhile_until)


lemma alias_at_inj:
  assumes "alias_at action i a" "alias_at action j a"
  shows "i = j"
proof -
  obtain X Y where "nat_str i @ ''_'' @ X = nat_str j @ ''_'' @ Y"
    using assms unfolding alias_at_def by auto
  then have "takeWhile is_decimal (nat_str i @ ''_'' @ X) = takeWhile is_decimal (nat_str j @ ''_'' @ Y)"
    by simp
  moreover have "takeWhile is_decimal (nat_str n @ ''_'' @ Z) = nat_str n" for n Z
  proof -
    have "takeWhile is_decimal (nat_str n @ ''_'' @ Z) = nat_str n @ takeWhile is_decimal (''_'' @ Z)"
      using nat_str_decimal by (intro takeWhile_append2) blast
    then show ?thesis by (simp add: is_decimal_def code_point_def)
  qed
  ultimately show ?thesis using nat_str_inj by simp
qed

lemma unique_suffix_no_colon:
  "CHR '':'' \<notin> set (''mut_'' @ unique_suffix action ks i record)"
  "CHR '':'' \<notin> set (''mut_'' @ unique_suffix action ks i record @ ''_ttl'')"
proof -
  have "CHR '':'' \<notin> set (unique_suffix action ks i record)"
    using unique_suffix_chars is_word_char_colon by blast
  then show "CHR '':'' \<notin> set (''mut_'' @ unique_suffix action ks i record)"
    "CHR '':'' \<notin> set (''mut_'' @ unique_suffix action ks i record @ ''_ttl'')"
    by simp_all
qed

lemma alias_of_create:
  "alias_of (create_mutation table_id fm (unique_suffix action ks i record) r)
   = ''mut_'' @ unique_suffix action ks i record"
  using alias_of_fragment [OF unique_suffix_no_colon(1)]
  by (simp add: create_mutation_def Let_def)

lemma alias_of_update_fields:
  "alias_of (update_fields_mutation (unique_suffix action ks i record) rid fv)
   = ''mut_'' @ unique_suffix action ks i record"
  using alias_of_fragment [OF unique_suffix_no_colon(1)]
  by (simp add: update_fields_mutation_def)

lemma alias_of_update_title:
  "alias_of (update_title_mutation (unique_suffix action ks i record) rid t)
   = ''mut_'' @ unique_suffix action ks i record @ ''_ttl''"
  using alias_of_fragment [OF unique_suffix_no_colon(2), of action ks i "record"]
  by (simp add: update_title_mutation_def)

lemma alias_of_archive_phase:
  "alias_of (archive_phase_mutation (unique_suffix action ks i record) rid d)
   = ''mut_'' @ unique_suffix action ks i record"
  using alias_of_fragment [OF unique_suffix_no_colon(1)]
  by (simp add: archive_phase_mutation_def)

lemma alias_of_archive_status:
  "alias_of (archive_status_mutation (unique_suffix action ks i record) rid)
   = ''mut_'' @ unique_suffix action ks i record"
  using alias_of_fragment [OF unique_suffix_no_colon(1)]
  by (simp add: archive_status_mutation_def)

lemmas alias_of_simps = alias_of_create alias_of_update_fields alias_of_update_title
  alias_of_archive_phase alias_of_archive_status

lemma alias_at_suffix:
  assumes "action = ''create'' \<or> action = ''update'' \<or> action = ''archive''"
  shows "alias_at action i (''mut_'' @ unique_suffix action ks i record)"
    and "alias_at action i (''mut_'' @ unique_suffix action ks i record @ ''_ttl'')"
  using unique_suffix_shape [OF assms, of ks i "record"] unfolding alias_at_def by auto

lemma build_record_aliases:
  assumes "build_record table_id action fm i record w = (Inr ms, w')"
  shows "distinct (map alias_of ms) \<and> (\<forall>m\<in>set ms. alias_at action i (alias_of m))"
proof -
  consider "action = ''create''" | "action = ''update''" | "action = ''archive''"
    | "action \<noteq> ''create''" "action \<noteq> ''update''" "action \<noteq> ''archive''" by blast
  then show ?thesis
  proof cases
    case 1
    then show ?thesis using assms alias_at_suffix(1) [of action i "fm_keys fm" "record"]
      by (auto simp: build_record_def Let_def alias_of_simps split: if_splits)
  next
    case 2
    then have a: "action = ''create'' \<or> action = ''update'' \<or> action = ''archive''" by simp
    show ?thesis using assms 2 alias_at_suffix [OF a, of i "fm_keys fm" "record"]
      by (auto simp: build_record_def Let_def update_fragments_def alias_of_simps
          split: if_splits prod.splits)
  next
    case 3
    then have a: "action = ''create'' \<or> action = ''update'' \<or> action = ''archive''" by simp
    show ?thesis using assms 3 alias_at_suffix(1) [OF a, of i "fm_keys fm" "record"]
      by (auto simp: build_record_def Let_def alias_of_simps
          split: if_splits prod.splits sum.splits)
  next
    case 4
    then show ?thesis using assms by (simp add: build_record_def Let_def)
  qed
qed

lemma build_from_aliases:
  assumes "build_from table_id action fm i records acc w = (Inr ms, w')"
    and "distinct (map alias_of acc)"
    and "\<forall>m\<in>set acc. \<exists>j<i. alias_at action j (alias_of m)"
  shows "distinct (map alias_of ms)"
  using assms
proof (induction records arbitrary: i acc w)
  case Nil
  then show ?case by simp
next
  case (Cons r rs)
  obtain res w1 where br: "build_record table_id action fm i r w = (res, w1)"
    by (cases "build_record table_id action fm i r w")
  obtain ms1 where res: "res = Inr ms1"
    using Cons.prems(1) br by (cases res) simp_all
  have step: "build_record table_id action fm i r w = (Inr ms1, w1)" using br res by simp
  have rest: "build_from table_id action fm (i + 1) rs (acc @ ms1) w1 = (Inr ms, w')"
    using Cons.prems(1) step by simp
  have new1: "distinct (map alias_of ms1)"
    and new2: "\<forall>m\<in>set ms1. alias_at action i (alias_of m)"
    using build_record_aliases [OF step] by blast+
  have disjoint: "set (map alias_of acc) \<inter> set (map alias_of ms1) = {}"
  proof (rule ccontr)
    assume "set (map alias_of acc) \<inter> set (map alias_of ms1) \<noteq> {}"
    then obtain a b where ab: "a \<in> set acc" "b \<in> set ms1" "alias_of a = alias_of b"
      by auto
    obtain j where j: "j < i" "alias_at action j (alias_of a)" using Cons.prems(3) ab(1) by blast
    have "alias_at action i (alias_of a)" using new2 ab(2,3) by simp
    then have "j = i" using alias_at_inj [OF j(2)] by blast
    then show False using j(1) by simp
  qed
  have d: "distinct (map alias_of (acc @ ms1))"
    using Cons.prems(2) new1 disjoint by simp
  have b: "\<forall>m\<in>set (acc @ ms1). \<exists>j<i + 1. alias_at action j (alias_of m)"
  proof
    fix m assume "m \<in> set (acc @ ms1)"
    then consider "m \<in> set acc" | "m \<in> set ms1" by auto
    then show "\<exists>j<i + 1. alias_at action j (alias_of m)"
    proof cases
      case 1
      then obtain j where "j < i" "alias_at action j (alias_of m)" using Cons.prems(3) by blast
      then have "j < i + 1" "alias_at action j (alias_of m)" by simp_all
      then show ?thesis by blast
    next
      case 2
      then have "i < i + 1" "alias_at action i (alias_of m)" using new2 by simp_all
      then show ?thesis by blast
    qed
  qed
  show ?case using Cons.IH [OF rest d b] .
qed

text \<open>
  Claim C7. The aliases of the fragments that one call of \<^verbatim>\<open>build_pipefy_mutations\<close>
  returns are pairwise distinct, for every list of records, every action and every field
  mapping; the alias of a fragment is its text before the colon.
\<close>

theorem aliases_pairwise_distinct:
  assumes "fst (build_pipefy_mutations records table_id action fm w) = Inr mutations"
  shows "distinct (map alias_of mutations)"
proof -
  obtain res w' where bf: "build_from table_id action fm 0 records [] w = (res, w')"
    by (cases "build_from table_id action fm 0 records [] w")
  then have "build_from table_id action fm 0 records [] w = (Inr mutations, w')"
    using assms by (simp add: build_pipefy_mutations_def)
  then show ?thesis
    using build_from_aliases [of table_id action fm 0 records "[]" w mutations w'] by simp
qed
lemma missing_key_identifier_iff:
  "missing_key_identifier ks r \<longleftrightarrow> (\<exists>k\<in>set ks. dict_has r k \<and> py_str (dict_get r k) = [])"
  by (auto simp: missing_key_identifier_def list_all_iff)

lemma build_record_create:
  "build_record table_id ''create'' fm i r w =
     (if \<exists>k\<in>set (fm_keys fm). dict_has r k \<and> py_str (dict_get r k) = []
      then (Inr [],
            log ''Skipping record creation for table {table_id}: Missing key identifier(s) in {record}''
              [PStr table_id, PDict r] w)
      else (Inr [create_mutation table_id fm (unique_suffix ''create'' (fm_keys fm) i r) r], w))"
  by (simp add: build_record_def Let_def missing_key_identifier_iff)



lemma dict_set_nonempty: "dict_set d k v \<noteq> []"
  by (cases d) (simp_all add: dict_set_def)

lemma build_record_update:
  assumes "py_truthy (dict_get r ''pipefy_record_id'')"
  shows "build_record table_id ''update'' fm i r w =
     (Inr (update_fields_mutation (unique_suffix ''update'' (fm_keys fm) i r)
             (dict_get r ''pipefy_record_id'') (update_field_values fm r)
           # (if derive_title r \<noteq> [] \<and> dict_get_or r ''current_title'' (PStr []) \<noteq> PStr (derive_title r)
              then [update_title_mutation (unique_suffix ''update'' (fm_keys fm) i r)
                      (dict_get r ''pipefy_record_id'') (derive_title r)]
              else [])), w)"
  using assms
  by (simp add: build_record_def Let_def update_fragments_def update_field_values_def
      dict_set_nonempty)



lemmas sanitize_eval =
  sanitize_graphql_string_def normalize_ws_def py_split_def escape_graphql_def replace_char_def
  py_str_def is_space_def code_point_def
  backslash_def dquote_def newline_def carriage_return_def tab_def

lemma example_update_title: "derive_title example_update = ''Widget 2''"
  by (simp add: derive_title_def example_update_def dict_has_def dict_get_def sanitize_eval)

lemma example_update_facts:
  "py_truthy (dict_get example_update ''pipefy_record_id'')"
  "dict_get_or example_update ''current_title'' (PStr []) = PStr ''Widget''"
  by (simp_all add: example_update_def dict_get_def dict_get_or_def)



theorem aliases_pairwise_distinct_witness:
  "\<exists>ms. fst (build_pipefy_mutations [example_update, example_update] ''306766430'' ''update''
               product_client_field_map example_world) = Inr ms
        \<and> length ms = 4 \<and> distinct (map alias_of ms)"
proof -
  let ?b = "build_pipefy_mutations [example_update, example_update] ''306766430'' ''update''
               product_client_field_map example_world"
  have "\<exists>f1 t1 f2 t2. fst ?b = Inr [f1, t1, f2, t2]"
    using build_record_update [OF example_update_facts(1), of "''306766430''" product_client_field_map]
    by (simp add: build_pipefy_mutations_def example_update_title example_update_facts)
  then obtain ms where ms: "fst ?b = Inr ms" "length ms = 4" by auto
  show ?thesis using aliases_pairwise_distinct [OF ms(1)] ms by blast
qed

text \<open>
  Claim C2 as stated fails: \<open>example_missing_keys\<close> has neither of the declared key attributes
  \<^verbatim>\<open>config_id\<close> and \<^verbatim>\<open>business_unit_id\<close>, and the create branch emits a fragment for it.
\<close>

theorem create_missing_key_not_skipped:
  "\<not> dict_has example_missing_keys ''config_id''
   \<and> build_pipefy_mutations [example_missing_keys] BU_AGENCY_TABLE_ID ''create''
         bu_agency_field_map example_world
       = (Inr [create_mutation BU_AGENCY_TABLE_ID bu_agency_field_map
                 (unique_suffix ''create'' (fm_keys bu_agency_field_map) 0 example_missing_keys)
                 example_missing_keys],
          example_world)"
  by (simp add: build_pipefy_mutations_def build_record_create example_missing_keys_def
      bu_agency_field_map_def dict_has_def)

section \<open>Properties of the reconciliation\<close>

lemma dict_set_entries:
  "(a, b) \<in> set (dict_set m k v) \<Longrightarrow> (a, b) = (k, v) \<or> (a, b) \<in> set m"
  unfolding dict_set_def by (induction m) (auto split: if_splits)

lemma key_map_entries:
  assumes "key_map key_of rs m = Inr m'"
    and "\<forall>(k, r)\<in>set m. key_of r = Inr k \<and> r \<in> R"
    and "set rs \<subseteq> R"
  shows "\<forall>(k, r)\<in>set m'. key_of r = Inr k \<and> r \<in> R"
  using assms
proof (induction rs arbitrary: m)
  case Nil
  then show ?case by simp
next
  case (Cons x xs)
  obtain k where k: "key_of x = Inr k" using Cons.prems(1) by (cases "key_of x") simp_all
  then have rest: "key_map key_of xs (dict_set m k x) = Inr m'" using Cons.prems(1) by simp
  have inv: "\<forall>(a, b)\<in>set (dict_set m k x). key_of b = Inr a \<and> b \<in> R"
  proof (clarify)
    fix a b assume "(a, b) \<in> set (dict_set m k x)"
    then have "(a, b) = (k, x) \<or> (a, b) \<in> set m" by (rule dict_set_entries)
    then show "key_of b = Inr a \<and> b \<in> R" using k Cons.prems(2,3) by auto
  qed
  show ?case using Cons.IH [OF rest inv] Cons.prems(3) by simp
qed

lemma chase_map_entries:
  assumes "chase_map_of tid fm chase = Inr cm" "(k, r) \<in> set cm"
  shows "get_key tid fm False r = Inr k \<and> r \<in> set chase"
  using key_map_entries [of "get_key tid fm False" chase "[]" cm "set chase"] assms
  unfolding chase_map_of_def by auto

lemma pipefy_map_entries:
  assumes "pipefy_map_of tid fm pip = Inr pm" "(k, p) \<in> set pm"
  shows "get_key tid fm True p = Inr k \<and> p \<in> set pip"
  using key_map_entries [of "get_key tid fm True" pip "[]" pm "set pip"] assms
  unfolding pipefy_map_of_def by auto

lemma reconcile_sources_create:
  assumes "reconcile_sources fm pm items (cs, us) = Inr (cs', us')"
  shows "cs' = cs @ map snd (filter (\<lambda>(k, r). map_of pm k = None) items)"
  using assms
proof (induction items arbitrary: cs us)
  case Nil
  then show ?case by simp
next
  case (Cons item items)
  obtain k r where item: "item = (k, r)" by (cases item)
  obtain cs1 us1 where step: "reconcile_source fm pm (k, r) (cs, us) = Inr (cs1, us1)"
    and rest: "reconcile_sources fm pm items (cs1, us1) = Inr (cs', us')"
    using Cons.prems item by (cases "reconcile_source fm pm (k, r) (cs, us)") auto
  have "cs1 = cs @ (if map_of pm k = None then [r] else [])"
    using step by (auto split: option.splits if_splits)
  then show ?case using Cons.IH [OF rest] item by simp
qed

lemma reconcile_sources_returns:
  assumes "\<forall>(k, p)\<in>set pm. dict_has p ''pipefy_record_id''"
  shows "\<exists>res. reconcile_sources fm pm items acc = Inr res"
proof (induction items arbitrary: acc)
  case Nil
  then show ?case by simp
next
  case (Cons item items)
  obtain k r where item: "item = (k, r)" by (cases item)
  obtain cs us where acc: "acc = (cs, us)" by (cases acc)
  have "\<exists>res. reconcile_source fm pm (k, r) (cs, us) = Inr res"
  proof (cases "map_of pm k")
    case None
    then show ?thesis by simp
  next
    case (Some p)
    then have "(k, p) \<in> set pm" by (rule map_of_SomeD)
    then have "map_of p ''pipefy_record_id'' \<noteq> None" using assms by (auto simp: dict_has_def)
    then show ?thesis using Some by (auto simp: Let_def)
  qed
  then obtain res where "reconcile_source fm pm item acc = Inr res" using item acc by auto
  then show ?case using Cons.IH [of res] by simp
qed

lemma fold_reconcile_destination:
  "fold (reconcile_destination cm) pm to_archive
   = to_archive @ map snd (filter (\<lambda>(k, p). map_of cm k = None
        \<and> dict_get p ''status'' \<noteq> PStr ''Archived'') pm)"
proof (induction pm arbitrary: to_archive)
  case Nil
  then show ?case by simp
next
  case (Cons item pm)
  obtain k p where "item = (k, p)" by (cases item)
  then show ?case using Cons.IH by simp
qed

lemma reconcile_lists:
  assumes cm: "chase_map_of tid fm chase = Inr cm"
    and pm: "pipefy_map_of tid fm pip = Inr pm"
    and ids: "\<forall>p\<in>set pip. dict_has p ''pipefy_record_id''"
  shows "\<exists>us. reconcile tid fm chase pip =
           Inr (map snd (filter (\<lambda>(k, r). map_of pm k = None) cm), us,
                map snd (filter (\<lambda>(k, p). map_of cm k = None
                  \<and> dict_get p ''status'' \<noteq> PStr ''Archived'') pm))"
proof -
  have "\<forall>(k, p)\<in>set pm. dict_has p ''pipefy_record_id''"
    using pipefy_map_entries [OF pm] ids by blast
  then obtain res where res: "reconcile_sources fm pm cm ([], []) = Inr res"
    using reconcile_sources_returns by blast
  obtain cs us where cu: "res = (cs, us)" by (cases res)
  have "cs = map snd (filter (\<lambda>(k, r). map_of pm k = None) cm)"
    using reconcile_sources_create [of fm pm cm "[]" "[]" cs us] res cu by simp
  then show ?thesis
    using cm pm res cu by (simp add: reconcile_def fold_reconcile_destination)
qed

lemma fields_differ_equal:
  assumes "\<forall>(record_key, pipefy_slug)\<in>set flds. record_key \<notin> set ks \<longrightarrow>
             (if dict_get dst pipefy_slug = PNone then []
              else normalize_ws (py_str (dict_get dst pipefy_slug)))
             = sanitize_graphql_string (dict_get src record_key)"
  shows "\<not> fields_differ ks flds src dst"
  using assms
proof (induction flds)
  case Nil
  then show ?case by simp
next
  case (Cons fld flds)
  obtain a b where fld: "fld = (a, b)" by (cases fld)
  have rest: "\<not> fields_differ ks flds src dst" using Cons by simp
  show ?case
  proof (cases "a \<in> set ks")
    case True
    then show ?thesis using rest fld by simp
  next
    case False
    then have "(if dict_get dst b = PNone then [] else normalize_ws (py_str (dict_get dst b)))
        = sanitize_graphql_string (dict_get src a)"
      using Cons.prems fld by simp
    then show ?thesis using rest fld False by (simp add: Let_def)
  qed
qed

text \<open>
  Claim C1. Take a source record and a destination record under the same identity key.
  When every mapped attribute that is not a key attribute has a destination value which,
  with \<^verbatim>\<open>None\<close> read as the empty string and whitespace collapsed otherwise, equals the
  sanitized source value, the destination title is the title derived from the source record
  and the destination status is \<^verbatim>\<open>"Active"\<close>, then the pass of the first loop for the
  source record leaves \<^verbatim>\<open>to_create\<close> and \<^verbatim>\<open>to_update\<close> as they are, the pass of
  the second loop for the destination record leaves \<^verbatim>\<open>to_archive\<close> as it is, and neither
  record is in the lists of creations and archivals that the reconciliation returns.
\<close>

theorem unchanged_record_no_mutation:
  assumes cm: "chase_map_of tid fm chase_data_list = Inr chase_map"
    and pm: "pipefy_map_of tid fm pipefy_data = Inr pipefy_map"
    and src: "map_of chase_map k = Some src"
    and dst: "map_of pipefy_map k = Some dst"
    and same: "\<forall>(record_key, pipefy_slug)\<in>set (fm_fields fm). record_key \<notin> set (fm_keys fm) \<longrightarrow>
             (if dict_get dst pipefy_slug = PNone then []
              else normalize_ws (py_str (dict_get dst pipefy_slug)))
             = sanitize_graphql_string (dict_get src record_key)"
    and title: "dict_get_or dst ''title'' (PStr []) = PStr (derive_title src)"
    and status: "dict_get dst ''status'' = PStr ''Active''"
    and run: "reconcile tid fm chase_data_list pipefy_data = Inr (to_create, to_update, to_archive)"
  shows "reconcile_source fm pipefy_map (k, src) (cs, us) = Inr (cs, us)
       \<and> reconcile_destination chase_map (k, dst) as = as
       \<and> src \<notin> set to_create \<and> dst \<notin> set to_archive"
proof -
  have nu: "\<not> needs_update fm src dst"
    using fields_differ_equal [OF same] title status by (simp add: needs_update_def Let_def)
  have step: "reconcile_source fm pipefy_map (k, src) (cs, us) = Inr (cs, us)"
    using dst nu by simp
  have dstep: "reconcile_destination chase_map (k, dst) as = as" using src by simp
  obtain cs0 us0 where rs: "reconcile_sources fm pipefy_map chase_map ([], []) = Inr (cs0, us0)"
    and lists: "to_create = cs0" "to_archive = fold (reconcile_destination chase_map) pipefy_map []"
    using run cm pm by (auto simp: reconcile_def split: sum.splits)
  have tc: "to_create = map snd (filter (\<lambda>(k, r). map_of pipefy_map k = None) chase_map)"
    using reconcile_sources_create [OF rs] lists by simp
  have ta: "to_archive = map snd (filter (\<lambda>(k, p). map_of chase_map k = None
        \<and> dict_get p ''status'' \<noteq> PStr ''Archived'') pipefy_map)"
    using lists by (simp add: fold_reconcile_destination)
  have ksrc: "get_key tid fm False src = Inr k"
    using chase_map_entries [OF cm map_of_SomeD [OF src]] by simp
  have kdst: "get_key tid fm True dst = Inr k"
    using pipefy_map_entries [OF pm map_of_SomeD [OF dst]] by simp
  have "src \<notin> set to_create"
  proof
    assume "src \<in> set to_create"
    then obtain k' where k': "(k', src) \<in> set chase_map" "map_of pipefy_map k' = None"
      unfolding tc by auto
    then have "k' = k" using chase_map_entries [OF cm k'(1)] ksrc by simp
    then show False using k'(2) dst by simp
  qed
  moreover have "dst \<notin> set to_archive"
  proof
    assume "dst \<in> set to_archive"
    then obtain k' where k': "(k', dst) \<in> set pipefy_map" "map_of chase_map k' = None"
      unfolding ta by auto
    then have "k' = k" using pipefy_map_entries [OF pm k'(1)] kdst by simp
    then show False using k'(2) src by simp
  qed
  ultimately show ?thesis using step dstep by simp
qed

text \<open>
  Claim C2, as amended. A record whose identity key is in the source map and not in the
  destination map is in \<^verbatim>\<open>to_create\<close>. The create branch skips a record, with one log
  line and no fragment, exactly when one of the declared key attributes is in the record
  with a value whose \<^verbatim>\<open>str\<close> is empty; a declared key attribute that the record lacks
  is not checked. Every other record yields exactly one create fragment.
\<close>

theorem source_only_record_created:
  assumes cm: "chase_map_of tid fm chase_data_list = Inr chase_map"
    and pm: "pipefy_map_of tid fm pipefy_data = Inr pipefy_map"
    and ids: "\<forall>p\<in>set pipefy_data. dict_has p ''pipefy_record_id''"
    and src: "(k, r) \<in> set chase_map"
    and absent: "map_of pipefy_map k = None"
  shows "(\<exists>to_create to_update to_archive.
            reconcile tid fm chase_data_list pipefy_data = Inr (to_create, to_update, to_archive)
            \<and> r \<in> set to_create)
       \<and> build_record tid ''create'' fm i r w =
           (if \<exists>key\<in>set (fm_keys fm). dict_has r key \<and> py_str (dict_get r key) = []
            then (Inr [],
                  log ''Skipping record creation for table {table_id}: Missing key identifier(s) in {record}''
                    [PStr tid, PDict r] w)
            else (Inr [create_mutation tid fm (unique_suffix ''create'' (fm_keys fm) i r) r], w))"
proof -
  have "r \<in> set (map snd (filter (\<lambda>(k, r). map_of pipefy_map k = None) chase_map))"
    using src absent by force
  then show ?thesis using reconcile_lists [OF cm pm ids] build_record_create by fastforce
qed




lemma example_maps:
  "chase_map_of BU_AGENCY_TABLE_ID bu_agency_field_map example_sources = Inr example_chase_map"
  "pipefy_map_of BU_AGENCY_TABLE_ID bu_agency_field_map example_destinations = Inr example_pipefy_map"
  by code_simp+

lemma example_reconcile:
  "reconcile BU_AGENCY_TABLE_ID bu_agency_field_map example_sources example_destinations
   = Inr ([example_sources ! 1], [], [example_destinations ! 1])"
  by code_simp

lemma example_ids: "\<forall>p\<in>set example_destinations. dict_has p ''pipefy_record_id''"
  by (simp add: example_destinations_def dict_has_def)

theorem unchanged_record_no_mutation_witness:
  "reconcile_source bu_agency_field_map example_pipefy_map (''6-5'', example_sources ! 0) ([], [])
     = Inr ([], [])
   \<and> reconcile_destination example_chase_map (''6-5'', example_destinations ! 0) [] = []
   \<and> example_sources ! 0 \<notin> set [example_sources ! 1]
   \<and> example_destinations ! 0 \<notin> set [example_destinations ! 1]"
proof -
  have src: "map_of example_chase_map ''6-5'' = Some (example_sources ! 0)"
    by (simp add: example_chase_map_def)
  have dst: "map_of example_pipefy_map ''6-5'' = Some (example_destinations ! 0)"
    by (simp add: example_pipefy_map_def)
  have same: "\<forall>(record_key, pipefy_slug)\<in>set (fm_fields bu_agency_field_map).
      record_key \<notin> set (fm_keys bu_agency_field_map) \<longrightarrow>
        (if dict_get (example_destinations ! 0) pipefy_slug = PNone then []
         else normalize_ws (py_str (dict_get (example_destinations ! 0) pipefy_slug)))
        = sanitize_graphql_string (dict_get (example_sources ! 0) record_key)"
    by (simp add: bu_agency_field_map_def example_destinations_def example_sources_def
        dict_get_def sanitize_eval)
  have title: "dict_get_or (example_destinations ! 0) ''title'' (PStr [])
      = PStr (derive_title (example_sources ! 0))"
    by (simp add: example_destinations_def example_sources_def dict_get_or_def dict_get_def
        dict_has_def derive_title_def sanitize_eval)
  have status: "dict_get (example_destinations ! 0) ''status'' = PStr ''Active''"
    by (simp add: example_destinations_def dict_get_def)
  show ?thesis
    by (rule unchanged_record_no_mutation
        [OF example_maps src dst same title status example_reconcile])
qed

theorem source_only_record_created_witness:
  "(\<exists>to_create to_update to_archive.
      reconcile BU_AGENCY_TABLE_ID bu_agency_field_map example_sources example_destinations
        = Inr (to_create, to_update, to_archive)
      \<and> example_sources ! 1 \<in> set to_create)
   \<and> build_record BU_AGENCY_TABLE_ID ''create'' bu_agency_field_map 0 (example_sources ! 1)
        example_world
     = (Inr [create_mutation BU_AGENCY_TABLE_ID bu_agency_field_map
               (unique_suffix ''create'' (fm_keys bu_agency_field_map) 0 (example_sources ! 1))
               (example_sources ! 1)],
        example_world)"
proof -
  have src: "(''6-4'', example_sources ! 1) \<in> set example_chase_map"
    by (simp add: example_chase_map_def)
  have absent: "map_of example_pipefy_map ''6-4'' = None"
    by (simp add: example_pipefy_map_def)
  have present: "\<not> (\<exists>key\<in>set (fm_keys bu_agency_field_map).
      dict_has (example_sources ! 1) key \<and> py_str (dict_get (example_sources ! 1) key) = [])"
    by code_simp
  show ?thesis
    using source_only_record_created [OF example_maps example_ids src absent, of 0 example_world]
      present
    by simp
qed




section \<open>Properties of the execution of mutations\<close>

lemma pipefy_attempt_frame:
  assumes "pipefy_attempt payload attempt delay w = (res, w')"
  shows "posts w' = posts w @ [payload] \<and> post_outcomes w' = post_outcomes w"
  using assms
  by (auto simp: pipefy_attempt_def Let_def split: outcome.splits sum.splits bool.splits
      pyval.splits if_splits)

lemma pipefy_post_from_frame:
  assumes "attempt < max_retries"
  shows "\<exists>n. posts (snd (pipefy_post_from attempt delay payload w)) = posts w @ replicate (Suc n) payload
           \<and> post_outcomes (snd (pipefy_post_from attempt delay payload w)) = post_outcomes w"
  using assms
proof (induction attempt delay payload w rule: pipefy_post_from.induct)
  case (1 attempt delay payload w)
  obtain res w1 where att: "pipefy_attempt payload attempt delay w = (res, w1)"
    by (cases "pipefy_attempt payload attempt delay w")
  note fr = pipefy_attempt_frame [OF att]
  show ?case
  proof (cases "res = Inr None \<and> attempt < max_retries - 1")
    case True
    then have next_lt: "attempt + 1 < max_retries" by (simp add: max_retries_def)
    have unfold: "pipefy_post_from attempt delay payload w
        = pipefy_post_from (attempt + 1) (delay * 2) payload (sleep delay w1)"
      using True att "1.prems" by (subst pipefy_post_from.simps) simp
    obtain n where n: "posts (snd (pipefy_post_from (attempt + 1) (delay * 2) payload (sleep delay w1)))
          = posts (sleep delay w1) @ replicate (Suc n) payload"
        "post_outcomes (snd (pipefy_post_from (attempt + 1) (delay * 2) payload (sleep delay w1)))
          = post_outcomes (sleep delay w1)"
      using "1.IH" [OF "1.prems" att [symmetric] _ _ _ next_lt] True by auto
    have "posts (snd (pipefy_post_from attempt delay payload w))
        = posts w @ replicate (Suc (Suc n)) payload"
      using n(1) fr unfold by (simp add: replicate_app_Cons_same)
    moreover have "post_outcomes (snd (pipefy_post_from attempt delay payload w)) = post_outcomes w"
      using n(2) fr unfold by simp
    ultimately show ?thesis by blast
  next
    case False
    have "posts (snd (pipefy_post_from attempt delay payload w)) = posts w @ replicate (Suc 0) payload
        \<and> post_outcomes (snd (pipefy_post_from attempt delay payload w)) = post_outcomes w"
      using False att fr "1.prems"
      by (subst (1 2) pipefy_post_from.simps) (auto split: sum.splits option.splits)
    then show ?thesis by blast
  qed
qed

lemma classify_results_count:
  "fst (classify_results data sc nc fa)
   = sc + length (filter (\<lambda>kv. mutation_succeeded (snd kv)) data)"
proof (induction data arbitrary: sc nc fa)
  case Nil
  then show ?case by simp
next
  case (Cons kv data)
  obtain a r where kv: "kv = (a, r)" by (cases kv)
  have "r = PNone \<Longrightarrow> \<not> mutation_succeeded r" by (simp add: mutation_succeeded_def)
  then show ?case using Cons kv by auto
qed

lemma log_graphql_errors_dicts:
  "list_all is_dict es \<Longrightarrow>
   \<exists>w'. log_graphql_errors es w = (None, w') \<and> posts w' = posts w
        \<and> post_outcomes w' = post_outcomes w"
proof (induction es arbitrary: w)
  case Nil
  then show ?case by simp
next
  case (Cons e es)
  then obtain d where d: "e = PDict d" by (cases e) (simp_all add: is_dict_def)
  let ?w1 = "log ''  > GraphQL Error: {error.get('message')}'' [dict_get d ''message''] w"
  let ?w2 = "if dict_has d ''path''
             then log ''    Error path: {error.get('path')}'' [dict_get d ''path''] ?w1 else ?w1"
  have step: "log_graphql_errors (e # es) w = log_graphql_errors es ?w2"
    using d by (simp add: Let_def)
  have fr: "posts ?w2 = posts w" "post_outcomes ?w2 = post_outcomes w" by simp_all
  obtain w' where "log_graphql_errors es ?w2 = (None, w')" "posts w' = posts ?w2"
    "post_outcomes w' = post_outcomes ?w2"
    using Cons.IH [of ?w2] Cons.prems by auto
  then show ?case using step fr by simp
qed

lemma length_filter_all: "length (filter P xs) = length xs \<longleftrightarrow> (\<forall>x\<in>set xs. P x)"
proof (induction xs)
  case Nil
  then show ?case by simp
next
  case (Cons x xs)
  have "length (filter P xs) \<le> length xs" by simp
  then have "length (filter P xs) \<noteq> Suc (length xs)" by linarith
  then show ?case using Cons by auto
qed

lemma success_count_all:
  assumes keys: "map fst data = map alias_of batch" and dist: "distinct (map fst data)"
  shows "length (filter (\<lambda>kv. mutation_succeeded (snd kv)) data) = length batch
     \<longleftrightarrow> list_all (\<lambda>fragment. case map_of data (alias_of fragment) of
                                Some result \<Rightarrow> mutation_succeeded result | None \<Rightarrow> False) batch"
proof -
  have len: "length data = length batch" using keys by (metis length_map)
  have l: "length (filter (\<lambda>kv. mutation_succeeded (snd kv)) data) = length batch
      \<longleftrightarrow> (\<forall>kv\<in>set data. mutation_succeeded (snd kv))"
    unfolding len [symmetric] by (rule length_filter_all)
  have r: "list_all (\<lambda>fragment. case map_of data (alias_of fragment) of
                                Some result \<Rightarrow> mutation_succeeded result | None \<Rightarrow> False) batch
      \<longleftrightarrow> (\<forall>kv\<in>set data. mutation_succeeded (snd kv))"
  proof
    assume all: "list_all (\<lambda>fragment. case map_of data (alias_of fragment) of
                                Some result \<Rightarrow> mutation_succeeded result | None \<Rightarrow> False) batch"
    show "\<forall>kv\<in>set data. mutation_succeeded (snd kv)"
    proof
      fix kv assume kv: "kv \<in> set data"
      then have "fst kv \<in> set (map alias_of batch)" using keys by (metis image_eqI list.set_map)
      then obtain f where f: "f \<in> set batch" "alias_of f = fst kv" by auto
      have "map_of data (fst kv) = Some (snd kv)" using dist kv by simp
      then show "mutation_succeeded (snd kv)" using all f by (auto simp: list_all_iff)
    qed
  next
    assume all: "\<forall>kv\<in>set data. mutation_succeeded (snd kv)"
    have "case map_of data (alias_of f) of Some result \<Rightarrow> mutation_succeeded result | None \<Rightarrow> False"
      if "f \<in> set batch" for f
    proof -
      have "alias_of f \<in> set (map fst data)" using that keys by simp
      then obtain r where r: "(alias_of f, r) \<in> set data" by auto
      then have "map_of data (alias_of f) = Some r" using dist by simp
      then show ?thesis using all r by auto
    qed
    then show "list_all (\<lambda>fragment. case map_of data (alias_of fragment) of
                                Some result \<Rightarrow> mutation_succeeded result | None \<Rightarrow> False) batch"
      by (simp add: list_all_iff)
  qed
  show ?thesis using l r by simp
qed

lemma submit_batch_frame:
  "\<exists>n. posts (snd (submit_batch i ms w))
         = posts w @ replicate (Suc n) (batch_payload (take batch_size (drop i ms)))
       \<and> post_outcomes (snd (submit_batch i ms w)) = post_outcomes w"
proof -
  let ?batch = "take batch_size (drop i ms)"
  let ?w1 = "log ''Executing batch {i//batch_size + 1}/{(len(mutations) + batch_size - 1)//batch_size} ({len(batch)} mutations)...''
                 [PInt (int (i div batch_size + 1)),
                  PInt (int ((length ms + batch_size - 1) div batch_size)),
                  PInt (int (length ?batch))] w"
  let ?w2 = "if length ?batch \<le> 3
                then log ''DEBUG: Mutation query: {full_mutation_string[:500]}...''
                       [PStr (take 500 (full_mutation_string ?batch))] ?w1
                else ?w1"
  have sb: "submit_batch i ms w = pipefy_post_from 0 5 (batch_payload ?batch) ?w2"
    by (simp add: submit_batch_def pipefy_post_def Let_def)
  have fr: "posts ?w2 = posts w" "post_outcomes ?w2 = post_outcomes w" by simp_all
  have "0 < max_retries" by (simp add: max_retries_def)
  from pipefy_post_from_frame [OF this, of 5 "batch_payload ?batch" ?w2]
  show ?thesis unfolding sb fr .
qed

lemma settle_batch_graphql:
  assumes gr: "graphql_reply batch (Inr response)"
    and b: "batch = take batch_size (drop i ms)"
    and ne: "batch \<noteq> []"
  shows "\<exists>w'. settle_batch i ms response w3 = (Inr (all_aliases_succeeded batch (Inr response)), w')
           \<and> posts w' = posts w3 \<and> post_outcomes w' = post_outcomes w3"
proof -
  obtain d where d: "response = PDict d"
    using gr by (cases response) (simp_all add: graphql_reply_def)
  show ?thesis
  proof (cases "dict_has d ''errors''")
    case True
    then have dne: "d \<noteq> []" by (auto simp: dict_has_def)
    have "\<exists>es. dict_get d ''errors'' = PList es \<and> list_all is_dict es"
      using gr d True by (cases "dict_get d ''errors''") (simp_all add: graphql_reply_def)
    then obtain es where es: "dict_get d ''errors'' = PList es" "list_all is_dict es"
      by blast
    let ?w4 = "log ''ERROR: Pipefy mutation batch {i//batch_size + 1} failed. Response: {response}''
                 [PInt (int (i div batch_size + 1)), response] w3"
    obtain w5 where w5: "log_graphql_errors es ?w4 = (None, w5)" "posts w5 = posts ?w4"
      "post_outcomes w5 = post_outcomes ?w4"
      using log_graphql_errors_dicts [OF es(2), of ?w4] by auto
    have "settle_batch i ms response w3 = (Inr False, w5)"
      using d True dne es(1) w5(1)
      by (simp add: settle_batch_def has_errors_def py_iter_def Let_def)
    moreover have "\<not> all_aliases_succeeded batch (Inr response)"
      using d True by (simp add: all_aliases_succeeded_def)
    ultimately show ?thesis using w5 by simp
  next
    case False
    have "\<exists>data. dict_get_or d ''data'' (PDict []) = PDict data
        \<and> map fst data = map alias_of batch \<and> distinct (map fst data)"
      using gr d False
      by (cases "dict_get_or d ''data'' (PDict [])") (auto simp: graphql_reply_def)
    then obtain data where data: "dict_get_or d ''data'' (PDict []) = PDict data"
      "map fst data = map alias_of batch" "distinct (map fst data)"
      by blast
    have dne: "d \<noteq> []"
    proof
      assume "d = []"
      then have "data = []" using data(1) by (simp add: dict_get_or_def)
      then show False using data(2) ne by simp
    qed
    obtain sc nc fa where cr: "classify_results data 0 0 [] = (sc, nc, fa)"
      by (cases "classify_results data 0 0 []")
    have sc: "sc = length (filter (\<lambda>kv. mutation_succeeded (snd kv)) data)"
      using classify_results_count [of data 0 0 "[]"] cr by simp
    have ok: "(sc = length batch) = all_aliases_succeeded batch (Inr response)"
      using success_count_all [OF data(2,3)] sc d False data(1)
      by (simp add: all_aliases_succeeded_def)
    have "\<exists>w'. settle_batch i ms response w3 = (Inr (sc = length batch), w')
           \<and> posts w' = posts w3 \<and> post_outcomes w' = post_outcomes w3"
      using d False dne data(1) cr b
      by (simp add: settle_batch_def has_errors_def Let_def)
    then show ?thesis using ok by simp
  qed
qed

lemma batches_from_step:
  "i < length ms \<Longrightarrow>
   batches_from i ms = take batch_size (drop i ms) # batches_from (i + batch_size) ms"
  by (subst batches_from.simps) simp

lemma execute_from_exchanges:
  assumes "\<forall>(batch, reply)\<in>set (exchanges_from i ms w). graphql_reply batch reply"
  shows "\<exists>w' sent. execute_from i acc ms w
           = (Inr (acc \<and> (\<forall>(batch, reply)\<in>set (exchanges_from i ms w).
                              all_aliases_succeeded batch reply)), w')
         \<and> map fst (exchanges_from i ms w) = batches_from i ms
         \<and> posts w' = posts w @ sent \<and> post_outcomes w' = post_outcomes w
         \<and> (\<forall>batch\<in>set (batches_from i ms). batch_payload batch \<in> set sent)"
  using assms
proof (induction i acc ms w rule: execute_from.induct)
  case (1 i acc ms w)
  show ?case
  proof (cases "i < length ms")
    case False
    then have "execute_from i acc ms w = (Inr acc, w)" "exchanges_from i ms w = []"
      "batches_from i ms = []"
      by (subst execute_from.simps exchanges_from.simps batches_from.simps, simp)+
    then show ?thesis by simp
  next
    case True
    let ?batch = "take batch_size (drop i ms)"
    have ne: "?batch \<noteq> []" using True by (simp add: batch_size_def)
    obtain res w3 where sb: "submit_batch i ms w = (res, w3)" by (cases "submit_batch i ms w")
    obtain n where fr3: "posts w3 = posts w @ replicate (Suc n) (batch_payload ?batch)"
      "post_outcomes w3 = post_outcomes w"
      using submit_batch_frame [of i ms w] sb by auto
    have ex: "exchanges_from i ms w
        = (?batch, res) # (case execute_batch i ms w of
             (Inl e, w') \<Rightarrow> []
           | (Inr ok, w') \<Rightarrow> exchanges_from (i + batch_size) ms w')"
      using True sb by (subst exchanges_from.simps) simp
    have gr: "graphql_reply ?batch res" using "1.prems" ex by simp
    then obtain response where res: "res = Inr response"
      by (cases res) (simp_all add: graphql_reply_def)
    obtain w4 where st: "settle_batch i ms response w3
          = (Inr (all_aliases_succeeded ?batch (Inr response)), w4)"
      "posts w4 = posts w3" "post_outcomes w4 = post_outcomes w3"
      using settle_batch_graphql [OF gr [unfolded res] refl ne, of w3] by auto
    let ?ok = "all_aliases_succeeded ?batch (Inr response)"
    have eb: "execute_batch i ms w = (Inr ?ok, w4)"
      using sb res st(1) by (simp add: execute_batch_def)
    have ex': "exchanges_from i ms w = (?batch, Inr response) # exchanges_from (i + batch_size) ms w4"
      using ex eb res by simp
    have tail: "\<forall>(batch, reply)\<in>set (exchanges_from (i + batch_size) ms w4). graphql_reply batch reply"
      using "1.prems" ex' by simp
    obtain w' sent where ih:
      "execute_from (i + batch_size) (acc \<and> ?ok) ms w4
           = (Inr ((acc \<and> ?ok) \<and> (\<forall>(batch, reply)\<in>set (exchanges_from (i + batch_size) ms w4).
                              all_aliases_succeeded batch reply)), w')"
      "map fst (exchanges_from (i + batch_size) ms w4) = batches_from (i + batch_size) ms"
      "posts w' = posts w4 @ sent" "post_outcomes w' = post_outcomes w4"
      "\<forall>batch\<in>set (batches_from (i + batch_size) ms). batch_payload batch \<in> set sent"
      using "1.IH" [OF True eb [symmetric] refl tail] by blast
    have run: "execute_from i acc ms w = execute_from (i + batch_size) (acc \<and> ?ok) ms w4"
      using True eb by (subst execute_from.simps) simp
    let ?sent = "replicate (Suc n) (batch_payload ?batch) @ sent"
    have "execute_from i acc ms w
           = (Inr (acc \<and> (\<forall>(batch, reply)\<in>set (exchanges_from i ms w).
                              all_aliases_succeeded batch reply)), w')"
      unfolding run ih(1) ex' by auto
    moreover have "map fst (exchanges_from i ms w) = batches_from i ms"
      unfolding ex' using ih(2) batches_from_step [OF True] by simp
    moreover have "posts w' = posts w @ ?sent" using ih(3) st(2) fr3(1) by simp
    moreover have "post_outcomes w' = post_outcomes w" using ih(4) st(3) fr3(2) by simp
    moreover have "\<forall>batch\<in>set (batches_from i ms). batch_payload batch \<in> set ?sent"
      using ih(5) batches_from_step [OF True] by auto
    ultimately show ?thesis by blast
  qed
qed

text \<open>
  Claim C8. Let every value that \<^verbatim>\<open>pipefy_post\<close> returns during the call have the shape
  of a GraphQL response to its batch (an error reply, such as the ones \<^verbatim>\<open>pipefy_post\<close>
  makes up for a transport failure, or a \<^verbatim>\<open>"data"\<close> with one entry for each alias of the
  batch). Then \<^verbatim>\<open>execute_pipefy_mutations\<close> on a non-empty list returns a boolean, it
  has submitted every batch of the list, whatever happened to the batches before, and the
  boolean is true exactly when every alias of every batch was classified as a success.
\<close>

theorem execute_attempts_every_batch:
  assumes "mutations \<noteq> []"
    and "\<forall>(batch, reply)\<in>set (exchanges_from 0 mutations w). graphql_reply batch reply"
  shows "\<exists>all_successful w' sent.
           execute_pipefy_mutations mutations w = (Inr all_successful, w')
         \<and> map fst (exchanges_from 0 mutations w) = batches_from 0 mutations
         \<and> posts w' = posts w @ sent
         \<and> (\<forall>batch\<in>set (batches_from 0 mutations). batch_payload batch \<in> set sent)
         \<and> (all_successful \<longleftrightarrow>
              (\<forall>(batch, reply)\<in>set (exchanges_from 0 mutations w).
                 all_aliases_succeeded batch reply))"
proof -
  obtain w1 sent where run:
    "execute_from 0 True mutations w
       = (Inr (True \<and> (\<forall>(batch, reply)\<in>set (exchanges_from 0 mutations w).
                              all_aliases_succeeded batch reply)), w1)"
    "map fst (exchanges_from 0 mutations w) = batches_from 0 mutations"
    "posts w1 = posts w @ sent"
    "\<forall>batch\<in>set (batches_from 0 mutations). batch_payload batch \<in> set sent"
    using execute_from_exchanges [OF assms(2), of True] by blast
  let ?ok = "\<forall>(batch, reply)\<in>set (exchanges_from 0 mutations w). all_aliases_succeeded batch reply"
  let ?w' = "if ?ok then log ''All Pipefy mutation batches executed successfully.'' [] w1
             else log ''WARNING: One or more Pipefy mutation batches had failures.'' [] w1"
  have "execute_pipefy_mutations mutations w = (Inr ?ok, ?w')"
    using assms(1) run(1) by (simp add: execute_pipefy_mutations_def)
  moreover have "posts ?w' = posts w @ sent" using run(3) by simp
  ultimately show ?thesis using run(2,4) by blast
qed

lemma example_exchanges:
  "exchanges_from 0 example_mutations example_flaky_world
   = [(replicate 50 ''a: x'', Inr (error_result ''Pipefy API call failed after multiple retries'')),
      ([''b: y''], Inr (PDict [(''data'',
                   PDict [(''b'', PDict [(''table_record'', PDict [(''id'', PStr ''1'')])])])]))]"
  by (simp add: exchanges_from.simps example_mutations_def example_flaky_world_def
      initial_world_def batch_size_def submit_batch_def execute_batch_def settle_batch_def
      pipefy_post_def pipefy_post_from.simps pipefy_attempt_def max_retries_def has_errors_def
      error_result_def dict_has_def dict_get_def dict_get_or_def py_iter_def
      mutation_succeeded_def log_def sleep_def Let_def)

theorem execute_attempts_every_batch_witness:
  "\<exists>all_successful w' sent.
     execute_pipefy_mutations example_mutations example_flaky_world = (Inr all_successful, w')
   \<and> map fst (exchanges_from 0 example_mutations example_flaky_world)
       = batches_from 0 example_mutations
   \<and> posts w' = posts example_flaky_world @ sent
   \<and> (\<forall>batch\<in>set (batches_from 0 example_mutations). batch_payload batch \<in> set sent)
   \<and> (all_successful \<longleftrightarrow>
        (\<forall>(batch, reply)\<in>set (exchanges_from 0 example_mutations example_flaky_world).
           all_aliases_succeeded batch reply))"
proof -
  have ne: "example_mutations \<noteq> []" by (simp add: example_mutations_def)
  have al: "alias_of ''b: y'' = ''b''" by (simp add: alias_of_def)
  have gr: "\<forall>(batch, reply)\<in>set (exchanges_from 0 example_mutations example_flaky_world).
      graphql_reply batch reply"
    unfolding example_exchanges
    by (simp add: graphql_reply_def error_result_def dict_has_def dict_get_def dict_get_or_def
        is_dict_def al)
  show ?thesis by (rule execute_attempts_every_batch [OF ne gr])
qed



end
